theory Spec2Isabelle
  imports Complex_Main
begin

section \<open>Noise correlations: binning of spike trains and lagged cross-correlation\<close>

text \<open>
  The development embeds two parts of \<^verbatim>\<open>noise_correlations.py\<close>: the function
  \<^verbatim>\<open>get_firing_rate\<close>, which bins a spike train and builds the jitter ensemble, and the
  cross-correlation stage of \<^verbatim>\<open>FunctionalConnectivity.noise_corr\<close> (lines 169 to 209,
  in its branch without jitter and in its branch with jitter) together with the kernel
  \<^verbatim>\<open>cross_correlate\<close>. The selection of the clusters, the smoothing and the files are
  outside: the rate signals that enter the cross-correlation stage are arbitrary arrays.

  Conventions of the embedding.
  \<^item> A float64 is a value of \<open>fval\<close>: a finite number, an infinity, or not a number. An
    arithmetic operation on finite operands is the exact result rounded by a rounding
    function \<open>fl\<close>, which is a parameter of every definition that computes with floats.
    \<open>binary64\<close> is the rounding of IEEE 754 double precision, to the nearest and to the
    even neighbour on a tie, which is what the program runs on; \<open>Fin\<close> as a rounding is
    arithmetic without rounding error.
  \<^item> The exceptions the code can raise are values of \<open>error\<close>; a function that can raise
    returns \<open>error + 'a\<close>.
  \<^item> The draws of \<^verbatim>\<open>np.random.random\<close> are a parameter \<open>draws\<close>: \<open>draws sh i\<close> is the
    \<open>i\<close>-th number drawn in replicate \<open>sh\<close>.
  \<^item> Timestamps, window bounds and \<open>bin_size\<close> are finite float64 numbers, of NumPy's
    scalar type, for which a division by zero gives an infinity or not a number.
  \<^item> Running out of memory in \<^verbatim>\<open>np.zeros\<close> is not modelled.
\<close>

subsection \<open>Errors\<close>

datatype error = IndexError | ValueError | OverflowError | UnboundLocalError

subsection \<open>Values of float64 and their arithmetic\<close>

text \<open>
  The special values follow IEEE 754: they come out of an overflow, of a division by
  zero and of an undefined operation, and they propagate. The sign of a zero is not
  tracked: every zero is taken as positive.
\<close>

datatype fval = Fin real | PInf | NInf | NaN

fun fneg :: "fval \<Rightarrow> fval" where
  "fneg (Fin a) = Fin (- a)"
| "fneg PInf = NInf"
| "fneg NInf = PInf"
| "fneg NaN = NaN"

fun fadd :: "(real \<Rightarrow> fval) \<Rightarrow> fval \<Rightarrow> fval \<Rightarrow> fval" where
  "fadd fl (Fin a) (Fin b) = fl (a + b)"
| "fadd fl NaN y = NaN"
| "fadd fl x NaN = NaN"
| "fadd fl PInf NInf = NaN"
| "fadd fl NInf PInf = NaN"
| "fadd fl PInf y = PInf"
| "fadd fl NInf y = NInf"
| "fadd fl (Fin a) y = y"

definition fsub :: "(real \<Rightarrow> fval) \<Rightarrow> fval \<Rightarrow> fval \<Rightarrow> fval" where
  "fsub fl x y = fadd fl x (fneg y)"

fun fmul :: "(real \<Rightarrow> fval) \<Rightarrow> fval \<Rightarrow> fval \<Rightarrow> fval" where
  "fmul fl (Fin a) (Fin b) = fl (a * b)"
| "fmul fl NaN y = NaN"
| "fmul fl x NaN = NaN"
| "fmul fl (Fin a) y = (if a = 0 then NaN else if 0 < a then y else fneg y)"
| "fmul fl x (Fin b) = (if b = 0 then NaN else if 0 < b then x else fneg x)"
| "fmul fl PInf y = y"
| "fmul fl NInf y = fneg y"

fun fdiv :: "(real \<Rightarrow> fval) \<Rightarrow> fval \<Rightarrow> fval \<Rightarrow> fval" where
  "fdiv fl (Fin a) (Fin b) =
     (if b \<noteq> 0 then fl (a / b)
      else if a = 0 then NaN
      else if 0 < a then PInf else NInf)"
| "fdiv fl NaN y = NaN"
| "fdiv fl x NaN = NaN"
| "fdiv fl (Fin a) y = Fin 0"
| "fdiv fl x (Fin b) = (if 0 \<le> b then x else fneg x)"
| "fdiv fl x y = NaN"

fun fsqrt :: "(real \<Rightarrow> fval) \<Rightarrow> fval \<Rightarrow> fval" where
  "fsqrt fl (Fin a) = (if 0 \<le> a then fl (sqrt a) else NaN)"
| "fsqrt fl PInf = PInf"
| "fsqrt fl NInf = NaN"
| "fsqrt fl NaN = NaN"

text \<open>The comparison \<^verbatim>\<open><=\<close>, which is false when an operand is not a number.\<close>

fun fle :: "fval \<Rightarrow> fval \<Rightarrow> bool" where
  "fle (Fin a) (Fin b) = (a \<le> b)"
| "fle NaN y = False"
| "fle x NaN = False"
| "fle NInf y = True"
| "fle x PInf = True"
| "fle x y = False"

subsection \<open>Rounding\<close>

text \<open>The nearest integer, and the even neighbour on a tie.\<close>

definition round_half_even :: "real \<Rightarrow> int" where
  "round_half_even x =
     (let f = \<lfloor>x\<rfloor>; d = x - of_int f
      in if d < 1 / 2 then f
         else if 1 / 2 < d then f + 1
         else if even f then f else f + 1)"

text \<open>
  IEEE 754 double precision, rounding to the nearest: a number with binary exponent
  \<open>e\<close>, at least \<open>-1022\<close>, is rounded to a multiple of \<open>2 powi (e - 52)\<close>, and a result
  of magnitude \<open>2 ^ 1024\<close> is an infinity.
\<close>

definition binary64 :: "real \<Rightarrow> fval" where
  "binary64 x =
     (if x = 0 then Fin 0
      else
        let e = max \<lfloor>log 2 \<bar>x\<bar>\<rfloor> (- 1022);
            ulp = 2 powi (e - 52);
            r = of_int (round_half_even (x / ulp)) * ulp
        in if 2 ^ 1024 \<le> \<bar>r\<bar> then (if 0 < x then PInf else NInf) else Fin r)"

subsection \<open>Bin indices\<close>

text \<open>\<^verbatim>\<open>np.round\<close> rounds a finite value to the nearest integer, a tie to the even neighbour.\<close>

fun np_round :: "fval \<Rightarrow> fval" where
  "np_round (Fin v) = Fin (of_int (round_half_even v))"
| "np_round x = x"

text \<open>
  \<^verbatim>\<open>astype(np.int32)\<close> drops the fraction and keeps a value that fits in 32 bits. The
  conversion of any other value is left open by C; the x86-64 instruction that NumPy
  compiles to gives the smallest 32-bit integer, which is what is written here.
\<close>

fun astype_int32 :: "fval \<Rightarrow> int" where
  "astype_int32 (Fin r) =
     (let i = (if 0 \<le> r then \<lfloor>r\<rfloor> else \<lceil>r\<rceil>)
      in if - (2 ^ 31) \<le> i \<and> i < 2 ^ 31 then i else - (2 ^ 31))"
| "astype_int32 x = - (2 ^ 31)"

text \<open>\<^verbatim>\<open>np.round(x/bin_size).astype(np.int32)\<close> for one entry \<open>x\<close>.\<close>

definition bin_index :: "(real \<Rightarrow> fval) \<Rightarrow> real \<Rightarrow> fval \<Rightarrow> int" where
  "bin_index fl bin_size x = astype_int32 (np_round (fdiv fl x (Fin bin_size)))"

definition bin_indices :: "(real \<Rightarrow> fval) \<Rightarrow> fval list \<Rightarrow> real \<Rightarrow> int list" where
  "bin_indices fl spikes bin_size = map (bin_index fl bin_size) spikes"

subsection \<open>Indexing an array with an array of indices\<close>

text \<open>
  An index \<open>i\<close> into an array of length \<open>n\<close> is valid when \<open>-n \<le> i < n\<close>, a negative
  one counting from the end; any other index raises \<^verbatim>\<open>IndexError\<close>.
\<close>

definition norm_index :: "nat \<Rightarrow> int \<Rightarrow> error + nat" where
  "norm_index n i =
     (if 0 \<le> i \<and> i < int n then Inr (nat i)
      else if - int n \<le> i \<and> i < 0 then Inr (nat (i + int n))
      else Inl IndexError)"

fun norm_indices :: "nat \<Rightarrow> int list \<Rightarrow> error + nat list" where
  "norm_indices n [] = Inr []"
| "norm_indices n (i # idx) =
     (case norm_index n i of
        Inl e \<Rightarrow> Inl e
      | Inr j \<Rightarrow> (case norm_indices n idx of Inl e \<Rightarrow> Inl e | Inr js \<Rightarrow> Inr (j # js)))"

text \<open>
  \<^verbatim>\<open>arr[idx] += 1\<close> is \<^verbatim>\<open>arr[idx] = arr[idx] + 1\<close>: the values at \<open>idx\<close> are read
  from the array as it is, one is added to each, and the sums are stored at \<open>idx\<close> one
  after the other. An index that occurs several times is stored several times with
  the same sum. The arrays that are incremented hold counts, which are small integers:
  they are lists of real numbers and the sum with one is exact.
\<close>

definition fancy_get :: "real list \<Rightarrow> nat list \<Rightarrow> real list" where
  "fancy_get arr js = map (\<lambda>j. arr ! j) js"

definition fancy_set :: "real list \<Rightarrow> nat list \<Rightarrow> real list \<Rightarrow> real list" where
  "fancy_set arr js vs = foldl (\<lambda>a (j, v). a[j := v]) arr (zip js vs)"

definition fancy_incr :: "real list \<Rightarrow> int list \<Rightarrow> error + real list" where
  "fancy_incr arr idx =
     (case norm_indices (length arr) idx of
        Inl e \<Rightarrow> Inl e
      | Inr js \<Rightarrow> Inr (fancy_set arr js (map (\<lambda>v. v + 1) (fancy_get arr js))))"

subsection \<open>The function \<^verbatim>\<open>get_firing_rate\<close>\<close>

text \<open>
  \<^verbatim>\<open>int(np.ceil((tracking_stop-tracking_start)/bin_size))\<close>: the difference and the
  quotient are float64 operations. \<^verbatim>\<open>int\<close> raises \<^verbatim>\<open>OverflowError\<close> on an infinity and
  \<^verbatim>\<open>ValueError\<close> on a quotient that is not a number.
\<close>

definition signal_length :: "(real \<Rightarrow> fval) \<Rightarrow> real \<Rightarrow> real \<Rightarrow> real \<Rightarrow> error + int" where
  "signal_length fl bin_size tracking_start tracking_stop =
     (case fdiv fl (fsub fl (Fin tracking_stop) (Fin tracking_start)) (Fin bin_size) of
        Fin q \<Rightarrow> Inr \<lceil>q\<rceil>
      | PInf \<Rightarrow> Inl OverflowError
      | NInf \<Rightarrow> Inl OverflowError
      | NaN \<Rightarrow> Inl ValueError)"

text \<open>\<^verbatim>\<open>np.zeros\<close> raises \<^verbatim>\<open>ValueError\<close> on a negative dimension.\<close>

definition np_zeros :: "int \<Rightarrow> error + real list" where
  "np_zeros n = (if n < 0 then Inl ValueError else Inr (replicate (nat n) 0))"

definition np_zeros2 :: "int \<Rightarrow> nat \<Rightarrow> error + real list list" where
  "np_zeros2 r c = (if r < 0 then Inl ValueError else Inr (replicate (nat r) (replicate c 0)))"

text \<open>
  \<^verbatim>\<open>cl_activity.copy() + ((2 * jitter_size * np.random.random(k)) - jitter_size)\<close>,
  where \<open>u i\<close> is the \<open>i\<close>-th draw: two products, a difference and a sum of float64.
\<close>

definition jitter :: "(real \<Rightarrow> fval) \<Rightarrow> real list \<Rightarrow> real \<Rightarrow> (nat \<Rightarrow> real) \<Rightarrow> fval list" where
  "jitter fl cl_activity jitter_size u =
     map (\<lambda>(i, t).
            fadd fl (Fin t)
              (fsub fl (fmul fl (fmul fl (Fin 2) (Fin jitter_size)) (Fin (u i)))
                 (Fin jitter_size)))
       (enumerate 0 cl_activity)"

text \<open>\<^verbatim>\<open>jitter_spikes[jitter_spikes <= tracking_stop]\<close>.\<close>

definition jitter_spikes ::
  "(real \<Rightarrow> fval) \<Rightarrow> real list \<Rightarrow> real \<Rightarrow> real \<Rightarrow> (nat \<Rightarrow> real) \<Rightarrow> fval list" where
  "jitter_spikes fl cl_activity tracking_stop jitter_size u =
     filter (\<lambda>x. fle x (Fin tracking_stop)) (jitter fl cl_activity jitter_size u)"

text \<open>
  The loop \<^verbatim>\<open>for sh in range(shuffle_n)\<close>, over the replicates still to do, on the pair
  of \<^verbatim>\<open>fr_arr\<close> and \<^verbatim>\<open>jitter_arr\<close>. The real signal is binned in the pass \<open>sh = 0\<close>.
\<close>

fun jitter_loop ::
  "(real \<Rightarrow> fval) \<Rightarrow> real list \<Rightarrow> real \<Rightarrow> real \<Rightarrow> real \<Rightarrow> (nat \<Rightarrow> nat \<Rightarrow> real) \<Rightarrow> nat list \<Rightarrow>
   real list \<times> real list list \<Rightarrow> error + (real list \<times> real list list)" where
  "jitter_loop fl cl_activity bin_size tracking_stop jitter_size draws [] st = Inr st"
| "jitter_loop fl cl_activity bin_size tracking_stop jitter_size draws (sh # shs)
     (fr_arr, jitter_arr) =
     (case fancy_incr (jitter_arr ! sh)
             (bin_indices fl
                (jitter_spikes fl cl_activity tracking_stop jitter_size (draws sh)) bin_size) of
        Inl e \<Rightarrow> Inl e
      | Inr row \<Rightarrow>
          (case (if sh = 0
                 then fancy_incr fr_arr (bin_indices fl (map Fin cl_activity) bin_size)
                 else Inr fr_arr) of
             Inl e \<Rightarrow> Inl e
           | Inr fr_arr' \<Rightarrow>
               jitter_loop fl cl_activity bin_size tracking_stop jitter_size draws shs
                 (fr_arr', jitter_arr[sh := row])))"

definition get_firing_rate ::
  "(real \<Rightarrow> fval) \<Rightarrow> real list \<Rightarrow> real \<Rightarrow> real \<Rightarrow> real \<Rightarrow> bool \<Rightarrow> real \<Rightarrow> int \<Rightarrow>
   (nat \<Rightarrow> nat \<Rightarrow> real) \<Rightarrow> error + (real list \<times> real list list)" where
  "get_firing_rate fl cl_activity bin_size tracking_start tracking_stop to_jitter jitter_size
     shuffle_n draws =
     (case signal_length fl bin_size tracking_start tracking_stop of
        Inl e \<Rightarrow> Inl e
      | Inr n \<Rightarrow>
          (case np_zeros n of
             Inl e \<Rightarrow> Inl e
           | Inr fr_arr \<Rightarrow>
               (case np_zeros2 shuffle_n (length fr_arr) of
                  Inl e \<Rightarrow> Inl e
                | Inr jitter_arr \<Rightarrow>
                    if to_jitter
                    then jitter_loop fl cl_activity bin_size tracking_stop jitter_size draws
                           [0..<nat shuffle_n] (fr_arr, jitter_arr)
                    else (case fancy_incr fr_arr
                                 (bin_indices fl (map Fin cl_activity) bin_size) of
                            Inl e \<Rightarrow> Inl e
                          | Inr fr_arr' \<Rightarrow> Inr (fr_arr', jitter_arr)))))"

subsection \<open>Notions used to state the properties of the binning\<close>

text \<open>The position an index takes in an array of length \<open>n\<close>, and whether it has one.\<close>

definition wrap_index :: "nat \<Rightarrow> int \<Rightarrow> nat" where
  "wrap_index n i = nat (if i < 0 then i + int n else i)"

definition valid_index :: "nat \<Rightarrow> int \<Rightarrow> bool" where
  "valid_index n i = (- int n \<le> i \<and> i < int n)"

text \<open>A generator whose every draw is \<open>u\<close>, and the test that a timestamp is in the window.\<close>

definition const_draws :: "real \<Rightarrow> nat \<Rightarrow> nat \<Rightarrow> real" where
  "const_draws u sh i = u"

definition in_window :: "real \<Rightarrow> real \<Rightarrow> real \<Rightarrow> bool" where
  "in_window tracking_start tracking_stop t = (tracking_start \<le> t \<and> t \<le> tracking_stop)"

text \<open>
  The float64 numbers next to 0.4, 0.01, 0.1, 0.0075, 0.001 and 0.0078, which are not
  float64 numbers themselves.
\<close>

definition d0_4 :: real where
  "d0_4 = 3602879701896397 / 2 ^ 53"

definition d0_01 :: real where
  "d0_01 = 5764607523034235 / 2 ^ 59"


definition d0_0075 :: real where
  "d0_0075 = 1080863910568919 / 2 ^ 57"

definition d0_001 :: real where
  "d0_001 = 1152921504606847 / 2 ^ 60"

definition d0_0078 :: real where
  "d0_0078 = 4496393867966703 / 2 ^ 59"

section \<open>The cross-correlation stage\<close>

subsection \<open>Sums and means of float64 arrays\<close>

text \<open>
  The arithmetic of a platform: the rounding of an operation, and the sum that NumPy's
  \<^verbatim>\<open>add.reduce\<close> gives for an array. NumPy adds the entries of an array in an order
  that depends on its length and on the version, so that the sum is a parameter next
  to the rounding.
\<close>

record float_ops =
  rounding :: "real \<Rightarrow> fval"
  add_reduce :: "fval list \<Rightarrow> fval"

text \<open>\<^verbatim>\<open>x**2\<close> on a float64 array multiplies each entry with itself.\<close>

definition fsq :: "(real \<Rightarrow> fval) \<Rightarrow> fval \<Rightarrow> fval" where
  "fsq fl x = fmul fl x x"

text \<open>
  \<^verbatim>\<open>np.sum\<close> in compiled code adds the entries to zero one after the other, from the
  left.
\<close>

definition fsum :: "(real \<Rightarrow> fval) \<Rightarrow> fval list \<Rightarrow> fval" where
  "fsum fl xs = foldl (fadd fl) (Fin 0) xs"

text \<open>\<^verbatim>\<open>mean\<close> of NumPy: the sum of \<^verbatim>\<open>add.reduce\<close> divided by the number of entries.\<close>

definition fmean :: "float_ops \<Rightarrow> fval list \<Rightarrow> fval" where
  "fmean fp xs = fdiv (rounding fp) (add_reduce fp xs) (Fin (real (length xs)))"

text \<open>
  Two platforms. \<open>float64\<close> rounds as IEEE 754 double precision does; its
  \<^verbatim>\<open>add.reduce\<close> adds from the left, which is NumPy's sum for the arrays evaluated
  below: their entries are all the same, or every sum of them is exact.
  \<open>exact_ops\<close> is arithmetic without rounding error.
\<close>

definition float64 :: float_ops where
  "float64 = \<lparr>rounding = binary64, add_reduce = fsum binary64\<rparr>"

definition exact_ops :: float_ops where
  "exact_ops = \<lparr>rounding = Fin, add_reduce = fsum Fin\<rparr>"

subsection \<open>Slices\<close>

text \<open>
  \<^verbatim>\<open>xs[start:stop]\<close>: a negative bound counts from the end, and both bounds are clamped
  to the array.
\<close>

definition slice_bound :: "int \<Rightarrow> int \<Rightarrow> int" where
  "slice_bound n i = (if i < 0 then max (i + n) 0 else min i n)"

definition py_slice :: "'a list \<Rightarrow> int \<Rightarrow> int \<Rightarrow> 'a list" where
  "py_slice xs start stop =
     (let n = int (length xs); a = slice_bound n start; b = slice_bound n stop
      in take (nat (b - a)) (drop (nat a) xs))"

subsection \<open>The kernel \<^verbatim>\<open>cross_correlate\<close>\<close>

text \<open>A two-dimensional array: its number of columns and its rows.\<close>

record array2 =
  ncols :: nat
  rows :: "fval list list"

text \<open>
  Broadcasting of the row differences (\<open>m\<close> columns) against the differences of
  \<^verbatim>\<open>small_y\<close>: the two lengths agree, or one of them is 1 and is repeated.
\<close>

definition broadcastable :: "nat \<Rightarrow> nat \<Rightarrow> bool" where
  "broadcastable m k = (m = k \<or> m = 1 \<or> k = 1)"

definition stretch :: "nat \<Rightarrow> fval list \<Rightarrow> fval list" where
  "stretch k v = (if length v = k then v else replicate k (hd v))"

definition cross_correlate ::
  "float_ops \<Rightarrow> array2 \<Rightarrow> fval list \<Rightarrow> fval list \<Rightarrow> fval \<Rightarrow> error + fval list" where
  "cross_correlate fp big_x big_x_mean small_y small_y_mean =
     (if length big_x_mean \<noteq> length (rows big_x) then Inl ValueError
      else if \<not> broadcastable (ncols big_x) (length small_y) then Inl ValueError
      else
        let fl = rounding fp;
            k = (if ncols big_x = 1 then length small_y else ncols big_x);
            dx = map2 (\<lambda>row mu. map (\<lambda>x. fsub fl x mu) row) (rows big_x) big_x_mean;
            dy = map (\<lambda>v. fsub fl v small_y_mean) small_y;
            r_num = map (\<lambda>d. fsum fl (map2 (fmul fl) (stretch k d) (stretch k dy))) dx;
            r_den = map (\<lambda>d. fsqrt fl (fmul fl (fsum fl (map (fsq fl) d))
                                          (fsum fl (map (fsq fl) dy)))) dx
        in Inr (map2 (fdiv fl) r_num r_den))"

subsection \<open>The cross-correlation stage of \<^verbatim>\<open>noise_corr\<close>\<close>

text \<open>
  \<^verbatim>\<open>big_x[bin_idx, :] = v\<close> on a row of \<open>m\<close> columns: \<open>v\<close> has \<open>m\<close> entries, or one
  entry that is repeated; otherwise NumPy raises \<^verbatim>\<open>ValueError\<close>.
\<close>

definition set_row :: "nat \<Rightarrow> fval list \<Rightarrow> error + fval list" where
  "set_row m v =
     (if length v = m then Inr v
      else if length v = 1 then Inr (replicate m (hd v))
      else Inl ValueError)"

text \<open>
  The loop \<^verbatim>\<open>for bin_idx, one_bin in enumerate(all_bins)\<close> on the pair of \<^verbatim>\<open>big_x\<close> and
  \<^verbatim>\<open>y\<close>, where \<open>x_sig\<close> is the signal that is lagged and \<open>y_sig\<close> the reference.
\<close>

fun lag_loop ::
  "int \<Rightarrow> fval list \<Rightarrow> fval list \<Rightarrow> int \<Rightarrow> (nat \<times> int) list \<Rightarrow>
   fval list list \<times> fval list \<Rightarrow> error + (fval list list \<times> fval list)" where
  "lag_loop fr1_shape x_sig y_sig bin_num [] st = Inr st"
| "lag_loop fr1_shape x_sig y_sig bin_num ((bin_idx, one_bin) # rest) (big_x, y) =
     (let y_start = bin_num;
          y_end = fr1_shape - bin_num;
          start_x = bin_num + one_bin;
          end_x = fr1_shape - bin_num + one_bin
      in case set_row (nat (y_end - y_start)) (py_slice x_sig start_x end_x) of
           Inl e \<Rightarrow> Inl e
         | Inr row \<Rightarrow>
             lag_loop fr1_shape x_sig y_sig bin_num rest
               (big_x[bin_idx := row], if bin_idx = 0 then py_slice y_sig y_start y_end else y))"

text \<open>
  Lines 169 to 174 and 199 to 209 of \<^verbatim>\<open>noise_corr\<close>, the branch without jitter: from the
  two rate signals to \<^verbatim>\<open>data\<close>, the cross-correlogram. \<^verbatim>\<open>np.arange(-bin_num, bin_num+1, 1)\<close>
  is the list of the integers from \<open>-bin_num\<close> to \<open>bin_num\<close>.
\<close>

definition noise_corr_data :: "float_ops \<Rightarrow> fval list \<Rightarrow> fval list \<Rightarrow> int \<Rightarrow> error + fval list" where
  "noise_corr_data fp fr1 fr2 bin_num =
     (let all_bins = [- bin_num..bin_num];
          fr1_shape = int (length fr1);
          y_start = bin_num;
          y_end = fr1_shape - bin_num
      in if y_end - y_start < 0 then Inl ValueError
         else
           let m = nat (y_end - y_start);
               big_x = replicate (length all_bins) (replicate m (Fin 0));
               y = replicate m (Fin 0)
           in case lag_loop fr1_shape fr1 fr2 bin_num (enumerate 0 all_bins) (big_x, y) of
                Inl e \<Rightarrow> Inl e
              | Inr (big_x', y') \<Rightarrow>
                  cross_correlate fp \<lparr>ncols = m, rows = big_x'\<rparr> (map (fmean fp) big_x') y'
                    (fmean fp y'))"

subsection \<open>The branch with jitter\<close>

text \<open>
  Lines 175 to 198: with jitter the loop over the lags runs once per replicate \<open>sh\<close>, on
  row \<open>sh\<close> of the two jitter arrays, and fills \<^verbatim>\<open>big_x_sh\<close> and \<^verbatim>\<open>y_sh\<close>. A row that
  the array does not have raises \<^verbatim>\<open>IndexError\<close>.
\<close>

fun lag_loop_sh ::
  "int \<Rightarrow> fval list list \<Rightarrow> fval list list \<Rightarrow> nat \<Rightarrow> int \<Rightarrow> (nat \<times> int) list \<Rightarrow>
   fval list list \<times> fval list \<Rightarrow> error + (fval list list \<times> fval list)" where
  "lag_loop_sh fr1_shape sh1 sh2 sh bin_num [] st = Inr st"
| "lag_loop_sh fr1_shape sh1 sh2 sh bin_num ((bin_idx, one_bin) # rest) (big_x_sh, y_sh) =
     (let y_start = bin_num;
          y_end = fr1_shape - bin_num;
          start_x = bin_num + one_bin;
          end_x = fr1_shape - bin_num + one_bin
      in if \<not> sh < length sh1 then Inl IndexError
         else case set_row (nat (y_end - y_start)) (py_slice (sh1 ! sh) start_x end_x) of
           Inl e \<Rightarrow> Inl e
         | Inr row \<Rightarrow>
             if bin_idx = 0 \<and> \<not> sh < length sh2 then Inl IndexError
             else lag_loop_sh fr1_shape sh1 sh2 sh bin_num rest
                    (big_x_sh[bin_idx := row],
                     if bin_idx = 0 then py_slice (sh2 ! sh) y_start y_end else y_sh))"

text \<open>
  The loop \<^verbatim>\<open>for sh in range(num_jitters)\<close> on the pair of \<^verbatim>\<open>data\<close>, unbound before the
  pass \<open>sh = 0\<close>, and \<^verbatim>\<open>sh_data\<close>. In the pass \<open>sh = 0\<close> the source fills \<^verbatim>\<open>big_x\<close> and
  \<^verbatim>\<open>y\<close> from the real signals inside the loop over the lags that also fills
  \<^verbatim>\<open>big_x_sh\<close>; the two are written one after the other here, which gives the same
  arrays and the same exception, since filling \<^verbatim>\<open>big_x\<close> cannot raise once \<^verbatim>\<open>big_x\<close> has
  been allocated (\<open>lag_loop_all_bins\<close> below). The row that \<^verbatim>\<open>cross_correlate\<close> returns
  has one entry per lag and fits the row of \<^verbatim>\<open>sh_data\<close>.
\<close>

fun sh_loop ::
  "float_ops \<Rightarrow> fval list \<Rightarrow> fval list \<Rightarrow> fval list list \<Rightarrow> fval list list \<Rightarrow> int \<Rightarrow> nat list \<Rightarrow>
   fval list option \<times> fval list list \<Rightarrow> error + (fval list option \<times> fval list list)" where
  "sh_loop fp fr1 fr2 sh1 sh2 bin_num [] st = Inr st"
| "sh_loop fp fr1 fr2 sh1 sh2 bin_num (sh # shs) (data, sh_data) =
     (let all_bins = [- bin_num..bin_num];
          fr1_shape = int (length fr1);
          m = nat (fr1_shape - bin_num - bin_num);
          zeros2 = replicate (length all_bins) (replicate m (Fin 0));
          zeros1 = replicate m (Fin 0)
      in case (if sh = 0
               then lag_loop fr1_shape fr1 fr2 bin_num (enumerate 0 all_bins) (zeros2, zeros1)
               else Inr (zeros2, zeros1)) of
           Inl e \<Rightarrow> Inl e
         | Inr (big_x, y) \<Rightarrow>
             (case lag_loop_sh fr1_shape sh1 sh2 sh bin_num (enumerate 0 all_bins)
                     (zeros2, zeros1) of
                Inl e \<Rightarrow> Inl e
              | Inr (big_x_sh, y_sh) \<Rightarrow>
                  (case (if sh = 0
                         then map_sum id Some
                                (cross_correlate fp \<lparr>ncols = m, rows = big_x\<rparr>
                                   (map (fmean fp) big_x) y (fmean fp y))
                         else Inr data) of
                     Inl e \<Rightarrow> Inl e
                   | Inr data' \<Rightarrow>
                       (case cross_correlate fp \<lparr>ncols = m, rows = big_x_sh\<rparr>
                               (map (fmean fp) big_x_sh) y_sh (fmean fp y_sh) of
                          Inl e \<Rightarrow> Inl e
                        | Inr r \<Rightarrow>
                            sh_loop fp fr1 fr2 sh1 sh2 bin_num shs (data', sh_data[sh := r])))))"

text \<open>
  The branch as a whole, from the allocation on line 173 to the pair of \<^verbatim>\<open>data\<close> and
  \<^verbatim>\<open>sh_data\<close> that line 212 saves; with no replicate \<^verbatim>\<open>data\<close> is still unbound there.
\<close>

definition noise_corr_jitter ::
  "float_ops \<Rightarrow> fval list \<Rightarrow> fval list \<Rightarrow> fval list list \<Rightarrow> fval list list \<Rightarrow> int \<Rightarrow> int \<Rightarrow>
   error + (fval list \<times> fval list list)" where
  "noise_corr_jitter fp fr1 fr2 sh1 sh2 bin_num num_jitters =
     (let all_bins = [- bin_num..bin_num];
          fr1_shape = int (length fr1);
          y_start = bin_num;
          y_end = fr1_shape - bin_num
      in if y_end - y_start < 0 then Inl ValueError
         else if num_jitters < 0 then Inl ValueError
         else case sh_loop fp fr1 fr2 sh1 sh2 bin_num [0..<nat num_jitters]
                     (None, replicate (nat num_jitters) (replicate (length all_bins) (Fin 0))) of
                Inl e \<Rightarrow> Inl e
              | Inr (None, sh_data) \<Rightarrow> Inl UnboundLocalError
              | Inr (Some data, sh_data) \<Rightarrow> Inr (data, sh_data))"

subsection \<open>Notions used to state the properties of the cross-correlation\<close>

text \<open>
  What \<^verbatim>\<open>cross_correlate\<close> computes for one row, from the row, its mean, \<^verbatim>\<open>small_y\<close> and
  its mean, with \<open>k\<close> the number of columns after broadcasting.
\<close>

definition lag_coefficient ::
  "(real \<Rightarrow> fval) \<Rightarrow> nat \<Rightarrow> fval list \<Rightarrow> fval \<Rightarrow> fval list \<Rightarrow> fval \<Rightarrow> fval" where
  "lag_coefficient fl k row mu y my =
     (let d = map (\<lambda>x. fsub fl x mu) row; dy = map (\<lambda>v. fsub fl v my) y
      in fdiv fl (fsum fl (map2 (fmul fl) (stretch k d) (stretch k dy)))
           (fsqrt fl (fmul fl (fsum fl (map (fsq fl) d)) (fsum fl (map (fsq fl) dy)))))"

text \<open>
  The Pearson coefficient of two sequences of real numbers, with the numerator and the
  denominator of the formula, and the sequences whose entries are all the same.
\<close>

definition mean :: "real list \<Rightarrow> real" where
  "mean xs = sum_list xs / real (length xs)"

definition pearson_num :: "real list \<Rightarrow> real list \<Rightarrow> real" where
  "pearson_num xs ys = (\<Sum>(x, y)\<leftarrow>zip xs ys. (x - mean xs) * (y - mean ys))"

definition pearson_den :: "real list \<Rightarrow> real list \<Rightarrow> real" where
  "pearson_den xs ys =
     sqrt ((\<Sum>x\<leftarrow>xs. (x - mean xs)\<^sup>2) * (\<Sum>y\<leftarrow>ys. (y - mean ys)\<^sup>2))"

definition pearson :: "real list \<Rightarrow> real list \<Rightarrow> real" where
  "pearson xs ys = pearson_num xs ys / pearson_den xs ys"

definition is_constant :: "real list \<Rightarrow> bool" where
  "is_constant xs = list_all (\<lambda>x. x = hd xs) xs"

text \<open>
  A constant sequence whose mean, as the platform computes it, is the value of its
  entries: every deviation from the mean is then computed as zero.
\<close>

definition exactly_constant :: "float_ops \<Rightarrow> real list \<Rightarrow> bool" where
  "exactly_constant fp xs = (is_constant xs \<and> fmean fp (map Fin xs) = Fin (hd xs))"

text \<open>The lagged slice of \<open>A\<close> for the lag \<open>l\<close>, and the centre slice.\<close>

definition lagged :: "real list \<Rightarrow> int \<Rightarrow> int \<Rightarrow> real list" where
  "lagged A bin_num l = py_slice A (bin_num + l) (int (length A) - bin_num + l)"

definition centre :: "real list \<Rightarrow> int \<Rightarrow> real list" where
  "centre A bin_num = py_slice A bin_num (int (length A) - bin_num)"

text \<open>
  The quotient of the numerator and the denominator without rounding error: a zero
  denominator gives a special value.
\<close>

definition coeff :: "real list \<Rightarrow> real list \<Rightarrow> fval" where
  "coeff xs ys = fdiv Fin (Fin (pearson_num xs ys)) (Fin (pearson_den xs ys))"


section \<open>Properties of the rounding\<close>

lemma round_half_even_of_int [simp]: "round_half_even (of_int q) = q"
  by (simp add: round_half_even_def)

lemma two_powr_int: "2 powr (of_int n) = (2::real) powi n"
  by (simp add: powr_real_of_int')

lemma binary64_normal:
  assumes "2 powi e \<le> \<bar>x\<bar>" and "\<bar>x\<bar> < 2 powi (e + 1)" and "- 1022 \<le> e"
  shows "binary64 x =
           (let r = of_int (round_half_even (x / 2 powi (e - 52))) * 2 powi (e - 52)
            in if 2 ^ 1024 \<le> \<bar>r\<bar> then (if 0 < x then PInf else NInf) else Fin r)"
proof -
  have pos: "0 < \<bar>x\<bar>"
    using assms(1) by (smt (verit) zero_less_power_int)
  then have nz: "x \<noteq> 0" by auto
  have p1: "2 powr (of_int e) = (2::real) powi e"
    by (simp add: powr_real_of_int')
  have "2 powr (of_int (e + 1)) = (2::real) powi (e + 1)"
    by (rule two_powr_int)
  then have p2: "2 powr (of_int e + 1) = (2::real) powi (e + 1)"
    by simp
  have "2 powr (of_int e) \<le> \<bar>x\<bar> \<and> \<bar>x\<bar> < 2 powr (of_int e + 1)"
    unfolding p1 p2 using assms(1,2) by simp
  then have "\<lfloor>log 2 \<bar>x\<bar>\<rfloor> = e"
    using pos by (subst floor_log_eq_powr_iff) simp_all
  then have "max \<lfloor>log 2 \<bar>x\<bar>\<rfloor> (- 1022) = e" using assms(3) by simp
  then show ?thesis using nz by (simp add: binary64_def Let_def)
qed


lemma binary64_dyadic:
  assumes "\<bar>m\<bar> < 2 ^ 53" and "j \<le> 1074"
  shows "binary64 (of_int m / 2 ^ j) = Fin (of_int m / 2 ^ j)"
proof (cases "m = 0")
  case True
  then show ?thesis by (simp add: binary64_def)
next
  case False
  define x :: real where "x = of_int m / 2 ^ j"
  define e where "e = max \<lfloor>log 2 \<bar>x\<bar>\<rfloor> (- 1022)"
  have nz: "x \<noteq> 0" using False by (simp add: x_def)
  have ax: "\<bar>x\<bar> = of_int \<bar>m\<bar> / 2 ^ j" by (simp add: x_def)
  have "of_int \<bar>m\<bar> < (2::real) ^ 53"
    using assms(1) by (metis of_int_less_numeral_power_cancel_iff)
  then have "\<bar>x\<bar> < 2 ^ 53 / 2 ^ j"
    unfolding ax by (simp add: divide_strict_right_mono)
  also have "(2::real) ^ 53 / 2 ^ j = 2 powi (53 - int j)"
    by (simp add: power_int_diff)
  finally have lt: "\<bar>x\<bar> < 2 powi (53 - int j)" .
  have "2 powr (of_int (53 - int j)) = (2::real) powi (53 - int j)"
    by (rule two_powr_int)
  then have "log 2 \<bar>x\<bar> < of_int (53 - int j)"
    using lt nz by (subst log_less_iff) simp_all
  then have "\<lfloor>log 2 \<bar>x\<bar>\<rfloor> < 53 - int j"
    by (simp add: floor_less_iff)
  then have e_le: "e \<le> 52 - int j" using assms(2) by (simp add: e_def)
  define k where "k = nat (52 - int j - e)"
  have k: "int k = 52 - int j - e" using e_le by (simp add: k_def)
  have "x / 2 powi (e - 52) = of_int m * (2 powi (52 - e) / 2 ^ j)"
    by (simp add: x_def power_int_diff field_simps)
  also have "(2::real) powi (52 - e) / 2 ^ j = 2 powi (52 - e - int j)"
    by (simp add: power_int_diff)
  also have "52 - e - int j = int k" using k by simp
  finally have q: "x / 2 powi (e - 52) = of_int (m * 2 ^ k)" by simp
  have undo: "of_int (m * 2 ^ k) * 2 powi (e - 52) = x"
    using q by (simp add: field_simps)
  have small: "\<not> 2 ^ 1024 \<le> \<bar>x\<bar>"
  proof -
    have "\<bar>x\<bar> \<le> of_int \<bar>m\<bar>"
      unfolding ax by (simp add: divide_le_eq mult_le_cancel_left1 flip: of_int_abs)
    also have "\<dots> < 2 ^ 53" by fact
    also have "(2::real) ^ 53 \<le> 2 ^ 1024" by simp
    finally show ?thesis by simp
  qed
  have "binary64 x = Fin x"
    using nz small unfolding binary64_def Let_def e_def [symmetric] q
    by (simp only: round_half_even_of_int undo if_False)
  then show ?thesis by (simp add: x_def)
qed

lemma binary64_int: "\<bar>m\<bar> < 2 ^ 53 \<Longrightarrow> binary64 (of_int m) = Fin (of_int m)"
  using binary64_dyadic [of m 0] by simp

lemma binary64_zero [simp]: "binary64 0 = Fin 0"
  by (simp add: binary64_def)

lemma binary64_one [simp]: "binary64 1 = Fin 1"
  using binary64_int [of 1] by simp

lemma binary64_minus_one [simp]: "binary64 (- 1) = Fin (- 1)"
  using binary64_int [of "- 1"] by simp

lemma binary64_numeral:
  "numeral n < (2::int) ^ 53 \<Longrightarrow> binary64 (numeral n) = Fin (numeral n)"
  using binary64_int [of "numeral n"] by simp

lemma binary64_neg_numeral:
  "numeral n < (2::int) ^ 53 \<Longrightarrow> binary64 (- numeral n) = Fin (- numeral n)"
  using binary64_int [of "- numeral n"] by simp

lemma binary64_halves:
  "numeral n < (2::int) ^ 53 \<Longrightarrow> binary64 (numeral n / 2) = Fin (numeral n / 2)"
  "binary64 (1 / 2) = Fin (1 / 2)"
  using binary64_dyadic [of "numeral n" 1] binary64_dyadic [of 1 1] by simp_all

lemma binary64_quarters:
  "numeral n < (2::int) ^ 53 \<Longrightarrow> binary64 (numeral n / 4) = Fin (numeral n / 4)"
  "binary64 (1 / 4) = Fin (1 / 4)"
  using binary64_dyadic [of "numeral n" 2] binary64_dyadic [of 1 2] by simp_all

lemmas binary64_values =
  binary64_numeral binary64_neg_numeral binary64_halves binary64_quarters

text \<open>
  The quotient of the float64 numbers next to 0.4 and 0.01 is 40: the exact quotient is
  a little more than 40 and is rounded down, so that its ceiling is 40 and not 41.
\<close>

lemma binary64_d0_4: "binary64 d0_4 = Fin d0_4"
  unfolding d0_4_def using binary64_dyadic [of 3602879701896397 53] by simp

lemma d0_4_by_d0_01: "binary64 (d0_4 / d0_01) = Fin 40" "\<lceil>d0_4 / d0_01\<rceil> = 41"
proof -
  have "binary64 (d0_4 / d0_01) =
          (let r = of_int (round_half_even (d0_4 / d0_01 / 2 powi (5 - 52))) * 2 powi (5 - 52)
           in if 2 ^ 1024 \<le> \<bar>r\<bar> then (if 0 < d0_4 / d0_01 then PInf else NInf) else Fin r)"
    by (rule binary64_normal) (simp_all add: d0_4_def d0_01_def)
  then show "binary64 (d0_4 / d0_01) = Fin 40"
    by (simp add: d0_4_def d0_01_def round_half_even_def Let_def)
  show "\<lceil>d0_4 / d0_01\<rceil> = 41"
    by (simp add: d0_4_def d0_01_def)
qed

text \<open>
  The quotient of the float64 numbers next to 0.0075 and 0.001 is 7.5: the exact
  quotient is a little less and would be rounded to 7, the computed one is a tie and
  is rounded to 8. In the window up to 0.0078, of 8 bins, the spike at 0.0075 has no
  bin and the function raises.
\<close>

lemma d0_0075_by_d0_001:
  "binary64 (d0_0075 / d0_001) = Fin (15 / 2)" "round_half_even (d0_0075 / d0_001) = 7"
proof -
  have "binary64 (d0_0075 / d0_001) =
          (let r = of_int (round_half_even (d0_0075 / d0_001 / 2 powi (2 - 52))) * 2 powi (2 - 52)
           in if 2 ^ 1024 \<le> \<bar>r\<bar> then (if 0 < d0_0075 / d0_001 then PInf else NInf) else Fin r)"
    by (rule binary64_normal) (simp_all add: d0_0075_def d0_001_def)
  then show "binary64 (d0_0075 / d0_001) = Fin (15 / 2)"
    by (simp add: d0_0075_def d0_001_def round_half_even_def Let_def)
  show "round_half_even (d0_0075 / d0_001) = 7"
    by (simp add: d0_0075_def d0_001_def round_half_even_def Let_def)
qed

lemma bin_index_d0_0075: "bin_index binary64 d0_001 (Fin d0_0075) = 8"
proof -
  have nz: "d0_001 \<noteq> 0" by (simp add: d0_001_def)
  show ?thesis
    using nz by (simp add: bin_index_def d0_0075_by_d0_001(1) round_half_even_def)
qed

lemma d0_0078_by_d0_001: "binary64 (d0_0078 / d0_001) = Fin (8782019273372467 / 2 ^ 50)"
proof -
  have "binary64 (d0_0078 / d0_001) =
          (let r = of_int (round_half_even (d0_0078 / d0_001 / 2 powi (2 - 52))) * 2 powi (2 - 52)
           in if 2 ^ 1024 \<le> \<bar>r\<bar> then (if 0 < d0_0078 / d0_001 then PInf else NInf) else Fin r)"
    by (rule binary64_normal) (simp_all add: d0_0078_def d0_001_def)
  then show ?thesis
    by (simp add: d0_0078_def d0_001_def round_half_even_def Let_def)
qed

lemma signal_length_d0_0078: "signal_length binary64 d0_001 0 d0_0078 = Inr 8"
proof -
  have nz: "d0_001 \<noteq> 0" by (simp add: d0_001_def)
  have a: "binary64 d0_0078 = Fin d0_0078"
    unfolding d0_0078_def using binary64_dyadic [of 4496393867966703 59] by simp
  show ?thesis
    using nz by (simp add: signal_length_def fsub_def a d0_0078_by_d0_001)
qed

lemma tie_spike_raises:
  "get_firing_rate binary64 [d0_0075] d0_001 0 d0_0078 False jitter_size 1 draws
     = Inl IndexError"
  by (simp add: get_firing_rate_def signal_length_d0_0078 np_zeros_def np_zeros2_def
      fancy_incr_def bin_indices_def bin_index_d0_0075 norm_index_def)

section \<open>Properties of the binning\<close>

subsection \<open>Index arrays\<close>

lemma norm_index_cases:
  "norm_index n i = (if valid_index n i then Inr (wrap_index n i) else Inl IndexError)"
  by (auto simp: norm_index_def valid_index_def wrap_index_def)

lemma norm_indices_eq:
  "norm_indices n idx =
     (if list_all (valid_index n) idx then Inr (map (wrap_index n) idx) else Inl IndexError)"
  by (induction idx) (simp_all add: norm_index_cases)

lemma wrap_index_less: "valid_index n i \<Longrightarrow> wrap_index n i < n"
  by (auto simp: valid_index_def wrap_index_def)

lemma length_fancy_set [simp]: "length (fancy_set arr js vs) = length arr"
proof -
  have "length (foldl (\<lambda>a (j, v). a[j := v]) arr ps) = length arr" for ps
    by (induction ps arbitrary: arr) (simp_all add: case_prod_beta)
  then show ?thesis by (simp add: fancy_set_def)
qed

lemma fancy_set_Cons:
  "fancy_set arr (j # js) (v # vs) = fancy_set (arr[j := v]) js vs"
  by (simp add: fancy_set_def)

lemma fancy_set_nth:
  "\<forall>j\<in>set js. j < length arr \<Longrightarrow> k < length arr \<Longrightarrow>
   fancy_set arr js (map g js) ! k = (if k \<in> set js then g k else arr ! k)"
proof (induction js arbitrary: arr)
  case Nil
  then show ?case by (simp add: fancy_set_def)
next
  case (Cons j js)
  have "fancy_set arr (j # js) (map g (j # js)) ! k = fancy_set (arr[j := g j]) js (map g js) ! k"
    by (simp add: fancy_set_Cons)
  also have "\<dots> = (if k \<in> set js then g k else arr[j := g j] ! k)"
    using Cons.prems by (intro Cons.IH) simp_all
  also have "\<dots> = (if k \<in> set (j # js) then g k else arr ! k)"
    using Cons.prems by (auto simp: nth_list_update)
  finally show ?case .
qed

text \<open>
  The effect of \<^verbatim>\<open>arr[idx] += 1\<close>: every position that some index points to holds its
  old value plus one, whatever the number of indices that point to it.
\<close>

lemma fancy_incr_eq:
  "fancy_incr arr idx =
     (if list_all (valid_index (length arr)) idx
      then Inr (map (\<lambda>k. if k \<in> wrap_index (length arr) ` set idx then arr ! k + 1 else arr ! k)
                  [0..<length arr])
      else Inl IndexError)"
proof (cases "list_all (valid_index (length arr)) idx")
  case False
  then show ?thesis by (simp add: fancy_incr_def norm_indices_eq)
next
  case True
  define js where "js = map (wrap_index (length arr)) idx"
  define g where "g = (\<lambda>j. arr ! j + 1)"
  have lt: "\<forall>j\<in>set js. j < length arr"
    using True by (auto simp: js_def list_all_iff wrap_index_less)
  have vs: "map (\<lambda>v. v + 1) (fancy_get arr js) = map g js"
    by (simp add: fancy_get_def g_def)
  have "fancy_set arr js (map g js) =
        map (\<lambda>k. if k \<in> set js then g k else arr ! k) [0..<length arr]"
    by (rule nth_equalityI) (simp_all add: fancy_set_nth [OF lt])
  moreover have "set js = wrap_index (length arr) ` set idx"
    by (simp add: js_def)
  ultimately show ?thesis
    using True by (simp add: fancy_incr_def norm_indices_eq vs flip: js_def) (simp add: g_def)
qed

lemma fancy_incr_length: "fancy_incr arr idx = Inr arr' \<Longrightarrow> length arr' = length arr"
  by (auto simp: fancy_incr_eq split: if_splits)

lemma fancy_incr_error: "fancy_incr arr idx = Inl e \<Longrightarrow> e = IndexError"
  by (auto simp: fancy_incr_eq split: if_splits)

lemma fancy_incr_invalid:
  "i \<in> set idx \<Longrightarrow> \<not> valid_index (length arr) i \<Longrightarrow> fancy_incr arr idx = Inl IndexError"
  by (auto simp: fancy_incr_eq list_all_iff)

lemma fancy_incr_zeros:
  "fancy_incr (replicate n 0) idx = Inr arr \<longleftrightarrow>
     list_all (valid_index n) idx \<and>
     arr = map (\<lambda>k. if k \<in> wrap_index n ` set idx then 1 else 0) [0..<n]"
  by (auto simp: fancy_incr_eq)

lemma fancy_incr_zeros_binary:
  "fancy_incr (replicate n 0) idx = Inr arr \<Longrightarrow> x \<in> set arr \<Longrightarrow> x = 0 \<or> x = 1"
  by (auto simp: fancy_incr_zeros)

subsection \<open>The jitter loop and the two modes of \<^verbatim>\<open>get_firing_rate\<close>\<close>

lemma length_jitter: "length (jitter fl cl_activity jitter_size u) = length cl_activity"
  by (simp add: jitter_def)

lemma jitter_loop_Inr:
  "jitter_loop fl ca bs ts js draws shs (fr, jit) = Inr (fr', jit') \<Longrightarrow> distinct shs \<Longrightarrow>
   \<forall>sh\<in>set shs. sh < length jit \<Longrightarrow>
   length jit' = length jit \<and>
   (\<forall>sh\<in>set shs.
      fancy_incr (jit ! sh) (bin_indices fl (jitter_spikes fl ca ts js (draws sh)) bs)
        = Inr (jit' ! sh)) \<and>
   (\<forall>k<length jit. k \<notin> set shs \<longrightarrow> jit' ! k = jit ! k) \<and>
   (if 0 \<in> set shs then fancy_incr fr (bin_indices fl (map Fin ca) bs) = Inr fr' else fr' = fr)"
proof (induction shs arbitrary: fr jit)
  case Nil
  then show ?case by simp
next
  case (Cons sh shs)
  from Cons.prems(1) obtain row fr1 where
    row: "fancy_incr (jit ! sh) (bin_indices fl (jitter_spikes fl ca ts js (draws sh)) bs)
            = Inr row" and
    fr1: "(if sh = 0 then fancy_incr fr (bin_indices fl (map Fin ca) bs) else Inr fr) = Inr fr1" and
    rest: "jitter_loop fl ca bs ts js draws shs (fr1, jit[sh := row]) = Inr (fr', jit')"
    by (auto split: sum.splits)
  have d: "distinct shs" and notin: "sh \<notin> set shs" and lt: "sh < length jit"
    using Cons.prems(2,3) by simp_all
  have bound: "\<forall>s\<in>set shs. s < length (jit[sh := row])"
    using Cons.prems(3) by simp
  note ih = Cons.IH [OF rest d bound]
  have len: "length jit' = length jit" using ih by simp
  have rows: "\<forall>s\<in>set (sh # shs).
      fancy_incr (jit ! s) (bin_indices fl (jitter_spikes fl ca ts js (draws s)) bs)
        = Inr (jit' ! s)"
  proof
    fix s assume s: "s \<in> set (sh # shs)"
    show "fancy_incr (jit ! s) (bin_indices fl (jitter_spikes fl ca ts js (draws s)) bs)
            = Inr (jit' ! s)"
    proof (cases "s = sh")
      case True
      have "jit' ! sh = jit[sh := row] ! sh" using ih notin lt by simp
      then show ?thesis using True row lt by simp
    next
      case False
      then have "s \<in> set shs" using s by simp
      then have "fancy_incr (jit[sh := row] ! s)
                   (bin_indices fl (jitter_spikes fl ca ts js (draws s)) bs) = Inr (jit' ! s)"
        using ih by blast
      then show ?thesis using False by simp
    qed
  qed
  have others: "\<forall>k<length jit. k \<notin> set (sh # shs) \<longrightarrow> jit' ! k = jit ! k"
    using ih by auto
  have real: "if 0 \<in> set (sh # shs)
      then fancy_incr fr (bin_indices fl (map Fin ca) bs) = Inr fr' else fr' = fr"
  proof (cases "sh = 0")
    case True
    then have "0 \<notin> set shs" using notin by simp
    then have "fr' = fr1" using ih by simp
    then show ?thesis using True fr1 by simp
  next
    case False
    then have "fr1 = fr" using fr1 by simp
    then show ?thesis using ih False by auto
  qed
  show ?case using len rows others real by blast
qed

lemma get_firing_rate_alloc:
  assumes "get_firing_rate fl ca bs t0 t1 to_jitter js shuffle_n draws = Inr (fr, jit)"
  shows "\<exists>n. signal_length fl bs t0 t1 = Inr n \<and> 0 \<le> n \<and> 0 \<le> shuffle_n"
  using assms
  by (auto simp: get_firing_rate_def np_zeros_def np_zeros2_def split: sum.splits if_splits)

lemma get_firing_rate_no_jitter:
  "get_firing_rate fl ca bs t0 t1 False js shuffle_n draws = Inr (fr, jit) \<longleftrightarrow>
     (\<exists>n. signal_length fl bs t0 t1 = Inr n \<and> 0 \<le> n \<and> 0 \<le> shuffle_n \<and>
        fancy_incr (replicate (nat n) 0) (bin_indices fl (map Fin ca) bs) = Inr fr \<and>
        jit = replicate (nat shuffle_n) (replicate (nat n) 0))"
  by (auto simp: get_firing_rate_def np_zeros_def np_zeros2_def split: sum.splits)

lemma get_firing_rate_jitter:
  assumes "get_firing_rate fl ca bs t0 t1 True js shuffle_n draws = Inr (fr, jit)"
    and "signal_length fl bs t0 t1 = Inr c"
  defines "n \<equiv> nat c"
  shows "0 \<le> c" "0 \<le> shuffle_n" "length jit = nat shuffle_n"
    "\<forall>sh<nat shuffle_n.
       fancy_incr (replicate n 0) (bin_indices fl (jitter_spikes fl ca t1 js (draws sh)) bs)
         = Inr (jit ! sh)"
    "if 0 < shuffle_n then fancy_incr (replicate n 0) (bin_indices fl (map Fin ca) bs) = Inr fr
     else fr = replicate n 0"
proof -
  from assms(1,2) show n0: "0 \<le> c" and s0: "0 \<le> shuffle_n"
    by (auto simp: get_firing_rate_def np_zeros_def np_zeros2_def split: sum.splits if_splits)
  with assms(1,2) have loop: "jitter_loop fl ca bs t1 js draws [0..<nat shuffle_n]
       (replicate n 0, replicate (nat shuffle_n) (replicate n 0)) = Inr (fr, jit)"
    by (simp add: get_firing_rate_def np_zeros_def np_zeros2_def n_def)
  have "distinct [0..<nat shuffle_n]" by simp
  moreover have "\<forall>sh\<in>set [0..<nat shuffle_n].
      sh < length (replicate (nat shuffle_n) (replicate n (0::real)))"
    by simp
  ultimately have r: "length jit = length (replicate (nat shuffle_n) (replicate n (0::real))) \<and>
   (\<forall>sh\<in>set [0..<nat shuffle_n].
      fancy_incr (replicate (nat shuffle_n) (replicate n 0) ! sh)
        (bin_indices fl (jitter_spikes fl ca t1 js (draws sh)) bs) = Inr (jit ! sh)) \<and>
   (\<forall>k<length (replicate (nat shuffle_n) (replicate n (0::real))).
      k \<notin> set [0..<nat shuffle_n] \<longrightarrow> jit ! k = replicate (nat shuffle_n) (replicate n 0) ! k) \<and>
   (if 0 \<in> set [0..<nat shuffle_n]
    then fancy_incr (replicate n 0) (bin_indices fl (map Fin ca) bs) = Inr fr
    else fr = replicate n 0)"
    by (rule jitter_loop_Inr [OF loop])
  show "length jit = nat shuffle_n" using r by simp
  show "\<forall>sh<nat shuffle_n.
       fancy_incr (replicate n 0) (bin_indices fl (jitter_spikes fl ca t1 js (draws sh)) bs)
         = Inr (jit ! sh)"
    using r by simp
  show "if 0 < shuffle_n then fancy_incr (replicate n 0) (bin_indices fl (map Fin ca) bs) = Inr fr
     else fr = replicate n 0"
    using r by (auto split: if_splits)
qed

lemma signal_length_Inr:
  "signal_length fl bs t0 t1 = Inr n \<longleftrightarrow>
     (\<exists>q. fdiv fl (fsub fl (Fin t1) (Fin t0)) (Fin bs) = Fin q \<and> n = \<lceil>q\<rceil>)"
  by (auto simp: signal_length_def split: fval.splits)

lemmas binning_defs =
  get_firing_rate_def signal_length_def np_zeros_def np_zeros2_def fancy_incr_def
  fancy_get_def fancy_set_def norm_index_def bin_indices_def bin_index_def round_half_even_def
  fsub_def jitter_spikes_def jitter_def const_draws_def binary64_values

subsection \<open>Sum of the rate signal\<close>

text \<open>
  C1: the specification asks that without jitter the entries of the rate signal sum to
  the number of input spikes in the window. The code does not do that when two spikes
  fall into one bin: for spikes at 1 and 1.25 seconds, bins of one second and the
  window from 0 to 4 seconds it returns the signal 0, 1, 0, 0, whose sum is 1, while
  both spikes are in the window. The bin is incremented once because
  \<^verbatim>\<open>fr_arr[idx] += 1\<close> stores one sum per index.
\<close>

theorem spikes_in_one_bin_counted_once:
  "get_firing_rate binary64 [1, 5 / 4] 1 0 4 False (1 / 256) 1 (const_draws 0)
     = Inr ([0, 1, 0, 0], [[0, 0, 0, 0]]) \<and>
   sum_list [0, 1, 0, 0 :: real] = 1 \<and>
   length (filter (in_window 0 4) [1, 5 / 4]) = 2"
  by (simp add: binning_defs in_window_def numeral_eq_Suc)

subsection \<open>Length of the signals\<close>

text \<open>
  C6: whenever \<^verbatim>\<open>get_firing_rate\<close> returns, the quotient
  \<^verbatim>\<open>(tracking_stop-tracking_start)/bin_size\<close> that the program computes in float64 is
  finite, the rate signal has as many entries as the ceiling of that quotient, the
  jitter array has \<open>shuffle_n\<close> rows, and every row is as long as the rate signal. For
  the float64 numbers next to 0.4 and 0.01 the length is 40.
\<close>

theorem signal_length_is_ceiling:
  assumes "get_firing_rate fl cl_activity bin_size tracking_start tracking_stop to_jitter
             jitter_size shuffle_n draws = Inr (fr, jit)"
  shows "\<exists>q. fdiv fl (fsub fl (Fin tracking_stop) (Fin tracking_start)) (Fin bin_size) = Fin q \<and>
           int (length fr) = \<lceil>q\<rceil> \<and>
           int (length jit) = shuffle_n \<and>
           (\<forall>row\<in>set jit. length row = length fr)"
proof -
  from get_firing_rate_alloc [OF assms] obtain c where
    c: "signal_length fl bin_size tracking_start tracking_stop = Inr c" and c0: "0 \<le> c"
    and s0: "0 \<le> shuffle_n"
    by blast
  then obtain q where
    q: "fdiv fl (fsub fl (Fin tracking_stop) (Fin tracking_start)) (Fin bin_size) = Fin q"
    and cq: "c = \<lceil>q\<rceil>"
    by (auto simp: signal_length_Inr)
  have "int (length fr) = c \<and> int (length jit) = shuffle_n \<and>
        (\<forall>row\<in>set jit. length row = length fr)"
  proof (cases to_jitter)
    case False
    with assms c c0 s0 show ?thesis
      by (auto simp: get_firing_rate_no_jitter dest: fancy_incr_length)
  next
    case True
    have run: "get_firing_rate fl cl_activity bin_size tracking_start tracking_stop True
               jitter_size shuffle_n draws = Inr (fr, jit)"
      using assms True by simp
    note r = get_firing_rate_jitter [OF run c]
    have "length fr = nat c" using r(5) by (auto split: if_splits dest: fancy_incr_length)
    moreover have "length row = nat c" if "row \<in> set jit" for row
    proof -
      from that obtain sh where "sh < length jit" "row = jit ! sh"
        by (auto simp: in_set_conv_nth)
      then have "fancy_incr (replicate (nat c) 0)
          (bin_indices fl (jitter_spikes fl cl_activity tracking_stop jitter_size (draws sh))
             bin_size) = Inr row"
        using r(3,4) by simp
      then show ?thesis using fancy_incr_length by fastforce
    qed
    ultimately show ?thesis using r(1,2,3) by simp
  qed
  then show ?thesis using q cq by blast
qed

theorem signal_length_is_ceiling_witness:
  "get_firing_rate binary64 [] d0_01 0 d0_4 False (1 / 256) 1 (const_draws 0)
     = Inr (replicate 40 0, [replicate 40 0]) \<and>
   (\<exists>q. fdiv binary64 (fsub binary64 (Fin d0_4) (Fin 0)) (Fin d0_01) = Fin q \<and>
        int (length (replicate 40 (0::real))) = \<lceil>q\<rceil> \<and>
        int (length [replicate 40 (0::real)]) = 1 \<and>
        list_all (\<lambda>row. length row = length (replicate 40 (0::real))) [replicate 40 0])"
proof -
  have nz: "d0_01 \<noteq> 0" by (simp add: d0_01_def)
  have run: "get_firing_rate binary64 [] d0_01 0 d0_4 False (1 / 256) 1 (const_draws 0)
     = Inr (replicate 40 0, [replicate 40 0])"
    using nz
    by (simp add: get_firing_rate_def signal_length_def fsub_def binary64_d0_4 d0_4_by_d0_01
          np_zeros_def np_zeros2_def fancy_incr_def bin_indices_def fancy_get_def fancy_set_def)
  show ?thesis
    using run signal_length_is_ceiling [OF run] by (simp add: list_all_iff)
qed

subsection \<open>The jitter array without jitter\<close>

text \<open>
  Claim C7 as the specification states it, "without jitter no ensemble is allocated or
  returned", fails: the array is allocated before the mode is tested and is returned in
  both modes.
\<close>

theorem no_ensemble_counterexample:
  "get_firing_rate binary64 [1] 1 0 4 False (1 / 256) 1 (const_draws 0)
     = Inr ([0, 1, 0, 0], [[0, 0, 0, 0]]) \<and> [[0, 0, 0, 0 :: real]] \<noteq> []"
  by (simp add: binning_defs numeral_eq_Suc)

text \<open>
  C7 (amended): without jitter the function returns, next to the rate signal, a jitter
  array of \<open>shuffle_n\<close> rows of the signal's length that holds only zeros.
\<close>

theorem jitter_array_returned_zero:
  assumes "get_firing_rate fl cl_activity bin_size tracking_start tracking_stop False
             jitter_size shuffle_n draws = Inr (fr, jit)"
  shows "jit = replicate (nat shuffle_n) (replicate (length fr) 0)"
  using assms by (auto simp: get_firing_rate_no_jitter dest: fancy_incr_length)

theorem jitter_array_returned_zero_witness:
  "get_firing_rate binary64 [1] 1 0 4 False (1 / 256) 2 (const_draws 0)
     = Inr ([0, 1, 0, 0], [[0, 0, 0, 0], [0, 0, 0, 0]]) \<and>
   [[0, 0, 0, 0], [0, 0, 0, 0 :: real]] = replicate (nat 2) (replicate (length [0, 1, 0, 0 :: real]) 0)"
proof -
  have run: "get_firing_rate binary64 [1] 1 0 4 False (1 / 256) 2 (const_draws 0)
     = Inr ([0, 1, 0, 0], [[0, 0, 0, 0], [0, 0, 0, 0]])"
    by (simp add: binning_defs numeral_eq_Suc)
  show ?thesis using run jitter_array_returned_zero [OF run] by simp
qed

subsection \<open>Indices outside the signal\<close>

text \<open>
  C8: a spike whose bin index is the length of the signal or more makes the function
  raise \<^verbatim>\<open>IndexError\<close>; the spike is neither clipped nor dropped. The length and the
  index are the ones the program computes. The witness is a spike at the end of the
  window, inside it.
\<close>

theorem index_beyond_end_raises:
  assumes "signal_length fl bin_size tracking_start tracking_stop = Inr n" and "0 \<le> n"
    and "0 < shuffle_n" and "t \<in> set cl_activity"
    and "n \<le> bin_index fl bin_size (Fin t)"
  shows "get_firing_rate fl cl_activity bin_size tracking_start tracking_stop to_jitter
           jitter_size shuffle_n draws = Inl IndexError"
proof -
  have "\<not> valid_index (nat n) (bin_index fl bin_size (Fin t))"
    using assms(2,5) by (simp add: valid_index_def)
  moreover have "bin_index fl bin_size (Fin t) \<in> set (bin_indices fl (map Fin cl_activity) bin_size)"
    using assms(4) by (simp add: bin_indices_def)
  ultimately have bad: "fancy_incr (replicate (nat n) 0)
      (bin_indices fl (map Fin cl_activity) bin_size) = Inl IndexError"
    using fancy_incr_invalid [of "bin_index fl bin_size (Fin t)" _ "replicate (nat n) 0"] by simp
  show ?thesis
  proof (cases to_jitter)
    case False
    then show ?thesis
      using bad assms(1,2,3)
      by (simp add: get_firing_rate_def np_zeros_def np_zeros2_def)
  next
    case True
    have up: "[0..<nat shuffle_n] = 0 # [1..<nat shuffle_n]"
      using assms(3) by (simp add: upt_conv_Cons)
    have row0: "replicate (nat shuffle_n) (replicate (nat n) (0::real)) ! 0 = replicate (nat n) 0"
      using assms(3) by simp
    have "jitter_loop fl cl_activity bin_size tracking_stop jitter_size draws [0..<nat shuffle_n]
            (replicate (nat n) 0, replicate (nat shuffle_n) (replicate (nat n) 0))
          = Inl IndexError"
      unfolding up using bad row0
      by (auto split: sum.splits dest: fancy_incr_error)
    then show ?thesis
      using True assms(1,2,3)
      by (simp add: get_firing_rate_def np_zeros_def np_zeros2_def)
  qed
qed

theorem index_beyond_end_raises_witness:
  "signal_length binary64 (1 / 2) 0 4 = Inr 8 \<and> (0::int) \<le> 8 \<and> (0::int) < 1 \<and>
   (4::real) \<in> set [1, 4] \<and> in_window 0 4 4 \<and>
   8 \<le> bin_index binary64 (1 / 2) (Fin 4) \<and>
   get_firing_rate binary64 [1, 4] (1 / 2) 0 4 False (1 / 256) 1 (const_draws 0) = Inl IndexError"
proof -
  have l: "signal_length binary64 (1 / 2) 0 4 = Inr 8"
    by (simp add: signal_length_def fsub_def binary64_values)
  have h: "8 \<le> bin_index binary64 (1 / 2) (Fin 4)"
    by (simp add: bin_index_def round_half_even_def binary64_values)
  show ?thesis
    using l h
      index_beyond_end_raises [of binary64 "1 / 2" 0 4 8 1 4 "[1, 4]" False "1 / 256" "const_draws 0"]
    by (simp add: in_window_def)
qed

text \<open>
  C9: with jitter, a perturbed timestamp that is not above \<open>tracking_stop\<close> is kept
  whatever its sign; when its bin index is negative and the function returns, the
  index counts from the end of the row, and that bin of the replicate holds one.
\<close>

theorem negative_index_wraps:
  assumes "get_firing_rate fl cl_activity bin_size tracking_start tracking_stop True
             jitter_size shuffle_n draws = Inr (fr, jit)"
    and "sh < nat shuffle_n" and "i < length cl_activity"
    and "x = fadd fl (Fin (cl_activity ! i))
               (fsub fl (fmul fl (fmul fl (Fin 2) (Fin jitter_size)) (Fin (draws sh i)))
                  (Fin jitter_size))"
    and "fle x (Fin tracking_stop)" and "bin_index fl bin_size x < 0"
  shows "- int (length fr) \<le> bin_index fl bin_size x \<and>
         jit ! sh ! nat (int (length fr) + bin_index fl bin_size x) = 1"
proof -
  from get_firing_rate_alloc [OF assms(1)] obtain c where
    c: "signal_length fl bin_size tracking_start tracking_stop = Inr c" by blast
  define n where "n = nat c"
  define idx where
    "idx = bin_indices fl
             (jitter_spikes fl cl_activity tracking_stop jitter_size (draws sh)) bin_size"
  note r = get_firing_rate_jitter [OF assms(1) c, folded n_def]
  have len: "length fr = n"
    using r(5) by (auto split: if_splits dest: fancy_incr_length)
  have "x = jitter fl cl_activity jitter_size (draws sh) ! i"
    using assms(3,4) by (simp add: jitter_def nth_enumerate_eq)
  then have "x \<in> set (jitter fl cl_activity jitter_size (draws sh))"
    using assms(3) by (simp add: length_jitter)
  then have mem: "bin_index fl bin_size x \<in> set idx"
    using assms(5) by (simp add: idx_def bin_indices_def jitter_spikes_def)
  have "fancy_incr (replicate n 0) idx = Inr (jit ! sh)"
    using r(4) assms(2) by (simp add: idx_def)
  then have valid: "list_all (valid_index n) idx"
    and row: "jit ! sh = map (\<lambda>k. if k \<in> wrap_index n ` set idx then 1 else 0) [0..<n]"
    by (simp_all add: fancy_incr_zeros)
  have v: "valid_index n (bin_index fl bin_size x)"
    using valid mem by (simp add: list_all_iff)
  have w: "wrap_index n (bin_index fl bin_size x) = nat (int n + bin_index fl bin_size x)"
    using assms(6) by (simp add: wrap_index_def add.commute)
  have lt: "nat (int n + bin_index fl bin_size x) < n"
    using wrap_index_less [OF v] w by simp
  have "nat (int n + bin_index fl bin_size x) \<in> wrap_index n ` set idx"
    using mem w by force
  then have "jit ! sh ! nat (int n + bin_index fl bin_size x) = 1"
    using lt by (simp add: row)
  then show ?thesis using v len by (simp add: valid_index_def)
qed

theorem negative_index_wraps_witness:
  "get_firing_rate binary64 [0, 3] 1 0 (7 / 2) True 2 2 (const_draws (1 / 4))
     = Inr ([1, 0, 0, 1], [[0, 0, 1, 1], [0, 0, 1, 1]]) \<and>
   (0::nat) < nat 2 \<and> (0::nat) < length [0, 3 :: real] \<and>
   Fin (- 1) = fadd binary64 (Fin ([0, 3] ! 0))
                 (fsub binary64 (fmul binary64 (fmul binary64 (Fin 2) (Fin 2))
                    (Fin (const_draws (1 / 4) 0 0))) (Fin 2)) \<and>
   fle (Fin (- 1)) (Fin (7 / 2)) \<and> bin_index binary64 1 (Fin (- 1)) < 0 \<and>
   - int (length [1, 0, 0, 1 :: real]) \<le> bin_index binary64 1 (Fin (- 1)) \<and>
   [[0, 0, 1, 1], [0, 0, 1, 1 :: real]] ! 0
     ! nat (int (length [1, 0, 0, 1 :: real]) + bin_index binary64 1 (Fin (- 1))) = 1"
proof -
  have run: "get_firing_rate binary64 [0, 3] 1 0 (7 / 2) True 2 2 (const_draws (1 / 4))
     = Inr ([1, 0, 0, 1], [[0, 0, 1, 1], [0, 0, 1, 1]])"
    by (simp add: binning_defs numeral_eq_Suc upt_conv_Cons floor_minus ceiling_minus)
  have x: "Fin (- 1) = fadd binary64 (Fin ([0, 3] ! 0))
                 (fsub binary64 (fmul binary64 (fmul binary64 (Fin 2) (Fin 2))
                    (Fin (const_draws (1 / 4) 0 0))) (Fin 2))"
    by (simp add: const_draws_def fsub_def binary64_values)
  have b: "bin_index binary64 1 (Fin (- 1)) < 0"
    by (simp add: bin_index_def round_half_even_def floor_minus ceiling_minus)
  show ?thesis
    using run b negative_index_wraps [OF run, of 0 0 "Fin (- 1)", OF _ _ x]
    by (simp add: const_draws_def fsub_def binary64_values)
qed

subsection \<open>Entries of the unsmoothed signals\<close>

text \<open>
  C10: every entry of the rate signal and of every jitter replicate that
  \<^verbatim>\<open>get_firing_rate\<close> returns is 0 or 1, also when several spikes fall into one bin.
\<close>

theorem entries_zero_or_one:
  assumes "get_firing_rate fl cl_activity bin_size tracking_start tracking_stop to_jitter
             jitter_size shuffle_n draws = Inr (fr, jit)"
  shows "(\<forall>x\<in>set fr. x = 0 \<or> x = 1) \<and> (\<forall>row\<in>set jit. \<forall>x\<in>set row. x = 0 \<or> x = 1)"
proof (cases to_jitter)
  case False
  with assms show ?thesis
    by (auto simp: get_firing_rate_no_jitter dest: fancy_incr_zeros_binary)
next
  case True
  from get_firing_rate_alloc [OF assms] obtain c where
    c: "signal_length fl bin_size tracking_start tracking_stop = Inr c" by blast
  have run: "get_firing_rate fl cl_activity bin_size tracking_start tracking_stop True
             jitter_size shuffle_n draws = Inr (fr, jit)"
    using assms True by simp
  note r = get_firing_rate_jitter [OF run c]
  have "x = 0 \<or> x = 1" if "x \<in> set fr" for x
    using r(5) that by (auto split: if_splits dest: fancy_incr_zeros_binary)
  moreover have "x = 0 \<or> x = 1" if "row \<in> set jit" "x \<in> set row" for row x
  proof -
    from that(1) obtain sh where "sh < length jit" "row = jit ! sh"
      by (auto simp: in_set_conv_nth)
    then have "fancy_incr (replicate (nat c) 0)
        (bin_indices fl (jitter_spikes fl cl_activity tracking_stop jitter_size (draws sh))
           bin_size) = Inr row"
      using r(3,4) by simp
    then show ?thesis using that(2) by (rule fancy_incr_zeros_binary)
  qed
  ultimately show ?thesis by blast
qed

theorem entries_zero_or_one_witness:
  "get_firing_rate binary64 [1, 5 / 4, 1] 1 0 4 True (1 / 4) 1 (const_draws (1 / 2))
     = Inr ([0, 1, 0, 0], [[0, 1, 0, 0]]) \<and>
   list_all (\<lambda>x. x = 0 \<or> x = 1) [0, 1, 0, 0 :: real] \<and>
   list_all (list_all (\<lambda>x. x = 0 \<or> x = 1)) [[0, 1, 0, 0 :: real]]"
proof -
  have run: "get_firing_rate binary64 [1, 5 / 4, 1] 1 0 4 True (1 / 4) 1 (const_draws (1 / 2))
     = Inr ([0, 1, 0, 0], [[0, 1, 0, 0]])"
    by (simp add: binning_defs numeral_eq_Suc upt_conv_Cons)
  show ?thesis using run entries_zero_or_one [OF run] by simp
qed

section \<open>Properties of the cross-correlation\<close>

subsection \<open>Slices\<close>

lemma map2_map_map: "map2 h (map f xs) (map g ys) = map2 (\<lambda>x y. h (f x) (g y)) xs ys"
  by (auto simp: zip_map_map)

lemma map2_map_both: "map2 f (map g ls) (map h ls) = map (\<lambda>l. f (g l) (h l)) ls"
  by (induction ls) simp_all

lemma py_slice_map: "py_slice (map f xs) a b = map f (py_slice xs a b)"
  by (simp add: py_slice_def Let_def take_map drop_map)

lemma length_py_slice_lag:
  assumes "0 \<le> b" and "2 * b \<le> int (length xs)" and "- b \<le> l" and "l \<le> b"
  shows "length (py_slice xs (b + l) (int (length xs) - b + l)) = nat (int (length xs) - 2 * b)"
  using assms by (simp add: py_slice_def slice_bound_def Let_def)

lemma centre_nonempty:
  "0 \<le> b \<Longrightarrow> 2 * b < int (length A) \<Longrightarrow> length (centre A b) = nat (int (length A) - 2 * b)"
  by (simp add: centre_def py_slice_def slice_bound_def Let_def)


lemma lagged_zero: "lagged A b 0 = centre A b"
  by (simp add: lagged_def centre_def)

subsection \<open>The loop over the lags\<close>

text \<open>
  For \<open>0 \<le> bin_num\<close> and a signal of at least \<open>2 * bin_num\<close> entries every slice has
  the length of a row, so that no assignment of a row broadcasts or raises, and the loop
  leaves the stacked slices in \<^verbatim>\<open>big_x\<close> and the centre slice in \<^verbatim>\<open>y\<close>.
\<close>

lemma set_row_same: "length v = m \<Longrightarrow> set_row m v = Inr v"
  by (simp add: set_row_def)

lemma lag_loop_eq:
  assumes "\<forall>(i, l)\<in>set ps. length (py_slice x (b + l) (s - b + l)) = nat (s - b - b)"
  shows "lag_loop s x y b ps (X, v) =
           Inr (foldl (\<lambda>X (i, l). X[i := py_slice x (b + l) (s - b + l)]) X ps,
                if 0 \<in> fst ` set ps then py_slice y b (s - b) else v)"
  using assms
proof (induction ps arbitrary: X v)
  case Nil
  then show ?case by simp
next
  case (Cons p ps)
  obtain i l where p: "p = (i, l)" by (cases p)
  have row: "set_row (nat (s - b - b)) (py_slice x (b + l) (s - b + l))
               = Inr (py_slice x (b + l) (s - b + l))"
    using Cons.prems p by (intro set_row_same) simp
  have rest: "\<forall>(i, l)\<in>set ps. length (py_slice x (b + l) (s - b + l)) = nat (s - b - b)"
    using Cons.prems by simp
  have "lag_loop s x y b (p # ps) (X, v) =
        lag_loop s x y b ps
          (X[i := py_slice x (b + l) (s - b + l)], if i = 0 then py_slice y b (s - b) else v)"
    unfolding p by (simp only: lag_loop.simps Let_def row sum.case)
  also have "\<dots> = Inr (foldl (\<lambda>X (i, l). X[i := py_slice x (b + l) (s - b + l)])
                        (X[i := py_slice x (b + l) (s - b + l)]) ps,
                      if 0 \<in> fst ` set ps then py_slice y b (s - b)
                      else if i = 0 then py_slice y b (s - b) else v)"
    by (rule Cons.IH [OF rest])
  finally show ?case unfolding p by auto
qed

lemma foldl_update_enumerate:
  "k + length ls \<le> length X \<Longrightarrow>
   foldl (\<lambda>X (i, l). X[i := f l]) X (enumerate k ls) =
     take k X @ map f ls @ drop (k + length ls) X"
proof (induction ls arbitrary: k X)
  case Nil
  then show ?case by simp
next
  case (Cons l ls)
  have "foldl (\<lambda>X (i, l). X[i := f l]) X (enumerate k (l # ls)) =
        foldl (\<lambda>X (i, l). X[i := f l]) (X[k := f l]) (enumerate (Suc k) ls)"
    by simp
  also have "\<dots> = take (Suc k) (X[k := f l]) @ map f ls @ drop (Suc k + length ls) (X[k := f l])"
    using Cons.prems by (intro Cons.IH) simp
  also have "take (Suc k) (X[k := f l]) = take k X @ [f l]"
    using Cons.prems by (simp add: take_Suc_conv_app_nth)
  also have "drop (Suc k + length ls) (X[k := f l]) = drop (k + length (l # ls)) X"
    by simp
  finally show ?case by simp
qed

lemma lag_loop_all_bins:
  assumes "0 \<le> b" and "2 * b \<le> int (length x)"
  shows "lag_loop (int (length x)) x y b (enumerate 0 [- b..b])
           (replicate (length [- b..b]) z, v) =
         Inr (map (\<lambda>l. py_slice x (b + l) (int (length x) - b + l)) [- b..b],
              py_slice y b (int (length x) - b))"
proof -
  let ?s = "int (length x)"
  have len: "\<forall>(i, l)\<in>set (enumerate 0 [- b..b]).
      length (py_slice x (b + l) (?s - b + l)) = nat (?s - b - b)"
  proof (clarify)
    fix i l assume "(i, l) \<in> set (enumerate 0 [- b..b])"
    then have "l \<in> set [- b..b]" by (auto simp: in_set_enumerate_eq)
    then have "- b \<le> l" "l \<le> b" by simp_all
    then show "length (py_slice x (b + l) (?s - b + l)) = nat (?s - b - b)"
      using length_py_slice_lag [OF assms, of l] by simp
  qed
  have ne: "[- b..b] \<noteq> []" using assms(1) by (simp add: upto.simps)
  then have zero: "0 \<in> fst ` set (enumerate 0 [- b..b])"
    by (cases "[- b..b]") (auto simp: image_iff)
  have "foldl (\<lambda>X (i, l). X[i := py_slice x (b + l) (?s - b + l)])
          (replicate (length [- b..b]) z) (enumerate 0 [- b..b]) =
        map (\<lambda>l. py_slice x (b + l) (?s - b + l)) [- b..b]"
    by (subst foldl_update_enumerate) simp_all
  then show ?thesis
    using zero by (simp only: lag_loop_eq [OF len] if_True)
qed

lemma nth_lags:
  assumes "- b \<le> l" and "l \<le> b"
  shows "map f [- b..b] ! nat (b + l) = f l" and "nat (b + l) < length [- b..b]"
  using assms by (simp_all add: nth_upto)

subsection \<open>The kernel, row by row\<close>

lemma cross_correlate_rows:
  assumes "length mu = length (rows X)" and "broadcastable (ncols X) (length y)"
    and "k = (if ncols X = 1 then length y else ncols X)"
  shows "cross_correlate fp X mu y my =
           Inr (map2 (\<lambda>row m. lag_coefficient (rounding fp) k row m y my) (rows X) mu)"
  unfolding cross_correlate_def Let_def lag_coefficient_def
  using assms by (auto intro!: nth_equalityI)

subsection \<open>The stage as a whole\<close>

lemma noise_corr_data_rows:
  assumes "length fr2 = length fr1" and "0 \<le> b" and "2 * b \<le> int (length fr1)"
  defines "m \<equiv> nat (int (length fr1) - 2 * b)"
  defines "X \<equiv> map (\<lambda>l. py_slice fr1 (b + l) (int (length fr1) - b + l)) [- b..b]"
  defines "y \<equiv> py_slice fr2 b (int (length fr1) - b)"
  shows "noise_corr_data fp fr1 fr2 b =
           Inr (map2 (\<lambda>row mu. lag_coefficient (rounding fp) m row mu y (fmean fp y)) X (map (fmean fp) X))"
proof -
  have loop: "lag_loop (int (length fr1)) fr1 fr2 b (enumerate 0 [- b..b])
           (replicate (length [- b..b]) (replicate m (Fin 0)), replicate m (Fin 0)) = Inr (X, y)"
    unfolding X_def y_def by (rule lag_loop_all_bins [OF assms(2,3)])
  have ylen: "length y = m"
    using assms(1,2,3) unfolding y_def m_def
    by (simp add: py_slice_def slice_bound_def Let_def)
  have l: "length (map (fmean fp) X) = length (rows \<lparr>ncols = m, rows = X\<rparr>)" by simp
  have bc: "broadcastable (ncols \<lparr>ncols = m, rows = X\<rparr>) (length y)"
    using ylen by (simp add: broadcastable_def)
  have k: "m = (if ncols \<lparr>ncols = m, rows = X\<rparr> = 1 then length y
                else ncols \<lparr>ncols = m, rows = X\<rparr>)"
    using ylen by simp
  have nonneg: "\<not> int (length fr1) - b - b < 0" using assms(3) by simp
  have m': "nat (int (length fr1) - b - b) = m" by (simp add: m_def)
  show ?thesis
    unfolding noise_corr_data_def Let_def
    by (simp only: nonneg if_False m' loop sum.case prod.case cross_correlate_rows [OF l bc k]
          array2.select_convs)
qed

subsection \<open>The branch with jitter\<close>

text \<open>
  With jitter, \<^verbatim>\<open>data\<close> is what the branch without jitter computes from the two real
  signals, and row \<open>sh\<close> of \<^verbatim>\<open>sh_data\<close> is what it computes from the replicates
  \<open>sh\<close> of the two jitter arrays: the properties below carry over to both.
\<close>

lemma lag_loop_sh_eq:
  "sh < length sh1 \<Longrightarrow> sh < length sh2 \<Longrightarrow>
   lag_loop_sh s sh1 sh2 sh b ps st = lag_loop s (sh1 ! sh) (sh2 ! sh) b ps st"
proof (induction ps arbitrary: st)
  case Nil
  show ?case by simp
next
  case (Cons p ps)
  obtain i l where p: "p = (i, l)" by (cases p)
  obtain X v where st: "st = (X, v)" by (cases st)
  show ?case
    unfolding p st using Cons.prems Cons.IH [OF Cons.prems]
    by (simp add: Let_def split: sum.splits)
qed

lemma noise_corr_data_unfold:
  "0 \<le> int (length x) - b - b \<Longrightarrow>
   noise_corr_data fp x y b =
     (case lag_loop (int (length x)) x y b (enumerate 0 [- b..b])
             (replicate (length [- b..b]) (replicate (nat (int (length x) - b - b)) (Fin 0)),
              replicate (nat (int (length x) - b - b)) (Fin 0)) of
        Inl e \<Rightarrow> Inl e
      | Inr (X, v) \<Rightarrow>
          cross_correlate fp \<lparr>ncols = nat (int (length x) - b - b), rows = X\<rparr> (map (fmean fp) X) v (fmean fp v))"
  unfolding noise_corr_data_def Let_def by (simp only: if_False not_less [symmetric])

lemma sh_loop_Inr:
  assumes "0 \<le> int (length fr1) - b - b"
  shows "sh_loop fp fr1 fr2 sh1 sh2 b shs (data, sh_data) = Inr (data', sh_data') \<Longrightarrow>
   distinct shs \<Longrightarrow>
   \<forall>sh\<in>set shs. sh < length sh1 \<and> sh < length sh2 \<and> sh < length sh_data \<and>
       length (sh1 ! sh) = length fr1 \<Longrightarrow>
   length sh_data' = length sh_data \<and>
   (\<forall>sh\<in>set shs. noise_corr_data fp (sh1 ! sh) (sh2 ! sh) b = Inr (sh_data' ! sh)) \<and>
   (\<forall>k<length sh_data. k \<notin> set shs \<longrightarrow> sh_data' ! k = sh_data ! k) \<and>
   (if 0 \<in> set shs then \<exists>d. data' = Some d \<and> noise_corr_data fp fr1 fr2 b = Inr d
    else data' = data)"
proof (induction shs arbitrary: data sh_data)
  case Nil
  then show ?case by simp
next
  case (Cons sh shs)
  let ?s = "int (length fr1)"
  let ?m = "nat (?s - b - b)"
  let ?Z2 = "replicate (length [- b..b]) (replicate ?m (Fin 0))"
  let ?Z1 = "replicate ?m (Fin 0)"
  have sh: "sh < length sh1" "sh < length sh2" "sh < length sh_data"
    "length (sh1 ! sh) = length fr1" and notin: "sh \<notin> set shs" and d: "distinct shs"
    using Cons.prems(2,3) by simp_all
  from Cons.prems(1) obtain big_x y big_x_sh y_sh d1 r where
    real: "(if sh = 0 then lag_loop ?s fr1 fr2 b (enumerate 0 [- b..b]) (?Z2, ?Z1)
            else Inr (?Z2, ?Z1)) = Inr (big_x, y)" and
    rep: "lag_loop_sh ?s sh1 sh2 sh b (enumerate 0 [- b..b]) (?Z2, ?Z1) = Inr (big_x_sh, y_sh)" and
    dat: "(if sh = 0 then map_sum id Some
               (cross_correlate fp \<lparr>ncols = ?m, rows = big_x\<rparr> (map (fmean fp) big_x) y (fmean fp y))
           else Inr data) = Inr d1" and
    row: "cross_correlate fp \<lparr>ncols = ?m, rows = big_x_sh\<rparr> (map (fmean fp) big_x_sh) y_sh (fmean fp y_sh)
            = Inr r" and
    rest: "sh_loop fp fr1 fr2 sh1 sh2 b shs (d1, sh_data[sh := r]) = Inr (data', sh_data')"
    by (simp add: Let_def split: sum.splits prod.splits if_splits)
  have bound: "\<forall>s\<in>set shs. s < length sh1 \<and> s < length sh2 \<and> s < length (sh_data[sh := r]) \<and>
       length (sh1 ! s) = length fr1"
    using Cons.prems(3) by simp
  note ih = Cons.IH [OF rest d bound]
  have g: "0 \<le> int (length (sh1 ! sh)) - b - b" using assms sh(4) by simp
  have this_row: "noise_corr_data fp (sh1 ! sh) (sh2 ! sh) b = Inr r"
    using rep row unfolding noise_corr_data_unfold [OF g] lag_loop_sh_eq [OF sh(1,2)] sh(4)
    by simp
  have rows: "\<forall>s\<in>set (sh # shs). noise_corr_data fp (sh1 ! s) (sh2 ! s) b = Inr (sh_data' ! s)"
  proof
    fix s assume s: "s \<in> set (sh # shs)"
    show "noise_corr_data fp (sh1 ! s) (sh2 ! s) b = Inr (sh_data' ! s)"
    proof (cases "s = sh")
      case True
      have "sh_data' ! sh = sh_data[sh := r] ! sh"
        using ih notin sh(3) by simp
      then show ?thesis using True this_row sh(3) by simp
    next
      case False
      then show ?thesis using s ih by simp
    qed
  qed
  have others: "\<forall>k<length sh_data. k \<notin> set (sh # shs) \<longrightarrow> sh_data' ! k = sh_data ! k"
    using ih by auto
  have real_data: "if 0 \<in> set (sh # shs)
      then \<exists>d. data' = Some d \<and> noise_corr_data fp fr1 fr2 b = Inr d else data' = data"
  proof (cases "sh = 0")
    case True
    then have "0 \<notin> set shs" using notin by simp
    then have same: "data' = d1" using ih by simp
    from dat True obtain d0 where
      d0: "cross_correlate fp \<lparr>ncols = ?m, rows = big_x\<rparr> (map (fmean fp) big_x) y (fmean fp y) = Inr d0"
      and d1: "d1 = Some d0"
      by (cases "cross_correlate fp \<lparr>ncols = ?m, rows = big_x\<rparr> (map (fmean fp) big_x) y (fmean fp y)") auto
    have "noise_corr_data fp fr1 fr2 b = Inr d0"
      using real d0 True unfolding noise_corr_data_unfold [OF assms] by simp
    then show ?thesis using True same d1 by simp
  next
    case False
    then have "d1 = data" using dat by simp
    then show ?thesis using ih False by auto
  qed
  have len: "length sh_data' = length sh_data" using ih by simp
  show ?case using len rows others real_data by blast
qed

lemma sh_loop_returns:
  assumes "0 \<le> b" and "2 * b \<le> int (length fr1)" and "length fr2 = length fr1"
  shows "\<forall>sh\<in>set shs. sh < length sh1 \<and> sh < length sh2 \<and>
           length (sh1 ! sh) = length fr1 \<and> length (sh2 ! sh) = length fr1 \<Longrightarrow>
         \<exists>res. sh_loop fp fr1 fr2 sh1 sh2 b shs st = Inr res"
proof (induction shs arbitrary: st)
  case Nil
  show ?case by simp
next
  case (Cons sh shs)
  obtain data sh_data where st: "st = (data, sh_data)" by (cases st)
  let ?s = "int (length fr1)"
  let ?m = "nat (?s - b - b)"
  let ?Z2 = "replicate (length [- b..b]) (replicate ?m (Fin 0))"
  let ?Z1 = "replicate ?m (Fin 0)"
  have sh: "sh < length sh1" "sh < length sh2" "length (sh1 ! sh) = length fr1"
    "length (sh2 ! sh) = length fr1"
    using Cons.prems by simp_all
  define X where "X = map (\<lambda>l. py_slice fr1 (b + l) (?s - b + l)) [- b..b]"
  define y where "y = py_slice fr2 b (?s - b)"
  define Xs where "Xs = map (\<lambda>l. py_slice (sh1 ! sh) (b + l) (?s - b + l)) [- b..b]"
  define ys where "ys = py_slice (sh2 ! sh) b (?s - b)"
  have real: "lag_loop ?s fr1 fr2 b (enumerate 0 [- b..b]) (?Z2, ?Z1) = Inr (X, y)"
    unfolding X_def y_def by (rule lag_loop_all_bins [OF assms(1,2)])
  have le: "2 * b \<le> int (length (sh1 ! sh))" using assms(2) sh(3) by simp
  have rep: "lag_loop_sh ?s sh1 sh2 sh b (enumerate 0 [- b..b]) (?Z2, ?Z1) = Inr (Xs, ys)"
    unfolding lag_loop_sh_eq [OF sh(1,2)] Xs_def ys_def
    using lag_loop_all_bins [OF assms(1) le, of "sh2 ! sh" "replicate ?m (Fin 0)" ?Z1]
    by (simp add: sh(3))
  have ylen: "length y = ?m" "length ys = ?m"
    using assms sh(4) unfolding y_def ys_def
    by (simp_all add: py_slice_def slice_bound_def Let_def)
  have cc: "\<exists>r. cross_correlate fp \<lparr>ncols = ?m, rows = R\<rparr> (map (fmean fp) R) v (fmean fp v) = Inr r"
    if "length v = ?m" for R v
  proof -
    have "cross_correlate fp \<lparr>ncols = ?m, rows = R\<rparr> (map (fmean fp) R) v (fmean fp v) =
            Inr (map2 (\<lambda>row mu. lag_coefficient (rounding fp) ?m row mu v (fmean fp v))
                   (rows \<lparr>ncols = ?m, rows = R\<rparr>) (map (fmean fp) R))"
      using that by (intro cross_correlate_rows) (simp_all add: broadcastable_def)
    then show ?thesis by blast
  qed
  from cc [OF ylen(1)] obtain d0 where
    d0: "cross_correlate fp \<lparr>ncols = ?m, rows = X\<rparr> (map (fmean fp) X) y (fmean fp y) = Inr d0" ..
  from cc [OF ylen(2)] obtain r where
    r: "cross_correlate fp \<lparr>ncols = ?m, rows = Xs\<rparr> (map (fmean fp) Xs) ys (fmean fp ys) = Inr r" ..
  have tail: "\<exists>res. sh_loop fp fr1 fr2 sh1 sh2 b shs st' = Inr res" for st'
    using Cons.prems by (intro Cons.IH) simp
  show ?case
  proof (cases "sh = 0")
    case True
    have "sh_loop fp fr1 fr2 sh1 sh2 b (sh # shs) (data, sh_data) =
          sh_loop fp fr1 fr2 sh1 sh2 b shs (Some d0, sh_data[sh := r])"
      by (simp only: sh_loop.simps Let_def if_P [OF True] real rep d0 r sum.case prod.case
            map_sum.simps id_apply)
    then show ?thesis unfolding st using tail by (simp only:)
  next
    case False
    have "sh_loop fp fr1 fr2 sh1 sh2 b (sh # shs) (data, sh_data) =
          sh_loop fp fr1 fr2 sh1 sh2 b shs (data, sh_data[sh := r])"
      by (simp only: sh_loop.simps Let_def if_not_P [OF False] rep r sum.case prod.case)
    then show ?thesis unfolding st using tail by (simp only:)
  qed
qed

lemma noise_corr_jitter_Inr:
  assumes "noise_corr_jitter fp fr1 fr2 sh1 sh2 b k = Inr (data, sh_data)"
    and "\<forall>sh<nat k. sh < length sh1 \<and> sh < length sh2 \<and> length (sh1 ! sh) = length fr1"
  shows "noise_corr_data fp fr1 fr2 b = Inr data \<and> length sh_data = nat k \<and>
         (\<forall>sh<nat k. noise_corr_data fp (sh1 ! sh) (sh2 ! sh) b = Inr (sh_data ! sh))"
proof -
  let ?Z = "replicate (nat k) (replicate (length [- b..b]) (Fin 0))"
  from assms(1) have g: "0 \<le> int (length fr1) - b - b" and k: "0 \<le> k"
    and loop: "sh_loop fp fr1 fr2 sh1 sh2 b [0..<nat k] (None, ?Z) = Inr (Some data, sh_data)"
    by (auto simp: noise_corr_jitter_def Let_def split: if_splits sum.splits option.splits)
  have d: "distinct [0..<nat k]" by simp
  have bound: "\<forall>sh\<in>set [0..<nat k]. sh < length sh1 \<and> sh < length sh2 \<and> sh < length ?Z \<and>
       length (sh1 ! sh) = length fr1"
    using assms(2) by simp
  note r = sh_loop_Inr [OF g loop d bound]
  have "0 \<in> set [0..<nat k]"
  proof (rule ccontr)
    assume "0 \<notin> set [0..<nat k]"
    then have "Some data = None" using r by simp
    then show False by simp
  qed
  then have "noise_corr_data fp fr1 fr2 b = Inr data" using r by auto
  moreover have "length sh_data = nat k" using r by simp
  moreover have "\<forall>sh<nat k. noise_corr_data fp (sh1 ! sh) (sh2 ! sh) b = Inr (sh_data ! sh)"
    using r by simp
  ultimately show ?thesis by blast
qed

lemma noise_corr_jitter_returns:
  assumes "0 \<le> b" and "2 * b \<le> int (length fr1)" and "length fr2 = length fr1" and "0 < k"
    and "\<forall>sh<nat k. sh < length sh1 \<and> sh < length sh2 \<and>
           length (sh1 ! sh) = length fr1 \<and> length (sh2 ! sh) = length fr1"
  shows "\<exists>data sh_data. noise_corr_jitter fp fr1 fr2 sh1 sh2 b k = Inr (data, sh_data)"
proof -
  let ?Z = "replicate (nat k) (replicate (length [- b..b]) (Fin 0))"
  have g: "0 \<le> int (length fr1) - b - b" using assms(2) by simp
  have "\<forall>sh\<in>set [0..<nat k]. sh < length sh1 \<and> sh < length sh2 \<and>
           length (sh1 ! sh) = length fr1 \<and> length (sh2 ! sh) = length fr1"
    using assms(5) by simp
  then obtain d' s' where loop: "sh_loop fp fr1 fr2 sh1 sh2 b [0..<nat k] (None, ?Z) = Inr (d', s')"
    using sh_loop_returns [OF assms(1,2,3), where shs = "[0..<nat k]" and ?sh1.0 = sh1
        and ?sh2.0 = sh2 and st = "(None, ?Z)" and fp = fp]
    by force
  have d: "distinct [0..<nat k]" by simp
  have bound: "\<forall>sh\<in>set [0..<nat k]. sh < length sh1 \<and> sh < length sh2 \<and> sh < length ?Z \<and>
       length (sh1 ! sh) = length fr1"
    using assms(5) by simp
  have "0 \<in> set [0..<nat k]" using assms(4) by simp
  then obtain d0 where "d' = Some d0"
    using sh_loop_Inr [OF g loop d bound] by auto
  then show ?thesis
    using loop g assms(4) by (simp add: noise_corr_jitter_def Let_def)
qed

subsection \<open>Arithmetic without rounding error\<close>

lemma foldl_fadd_Fin: "foldl (fadd Fin) (Fin a) (map Fin xs) = Fin (a + sum_list xs)"
  by (induction xs arbitrary: a) (simp_all add: add.assoc)

lemma fsum_Fin: "fsum Fin (map Fin xs) = Fin (sum_list xs)"
  by (simp add: fsum_def foldl_fadd_Fin)

lemma fmean_Fin: "xs \<noteq> [] \<Longrightarrow> fmean exact_ops (map Fin xs) = Fin (mean xs)"
  by (simp add: fmean_def exact_ops_def fsum_Fin mean_def)

lemma fsub_fmean_Fin:
  "map (\<lambda>x. fsub Fin x (fmean exact_ops (map Fin xs))) (map Fin xs) = map Fin (map (\<lambda>x. x - mean xs) xs)"
  by (cases "xs = []") (simp_all add: fmean_Fin fsub_def)

lemma map2_fmul_Fin:
  "map2 (fmul Fin) (map Fin ds) (map Fin es) = map Fin (map2 (*) ds es)"
  by (auto simp: zip_map_map)

lemma map_fsq_Fin: "map (fsq Fin) (map Fin ds) = map Fin (map (\<lambda>d. d\<^sup>2) ds)"
  by (simp add: fsq_def power2_eq_square)

lemma fsum_fsq_Fin: "fsum Fin (map (fsq Fin) (map Fin (map f xs))) = Fin (\<Sum>x\<leftarrow>xs. (f x)\<^sup>2)"
proof -
  have "fsum Fin (map (fsq Fin) (map Fin (map f xs))) = Fin (sum_list (map (\<lambda>d. d\<^sup>2) (map f xs)))"
    by (simp only: map_fsq_Fin fsum_Fin)
  then show ?thesis by (simp add: comp_def)
qed

lemma lag_coefficient_Fin:
  assumes "length xs = m" and "length ys = m"
  shows "lag_coefficient Fin m (map Fin xs) (fmean exact_ops (map Fin xs)) (map Fin ys)
           (fmean exact_ops (map Fin ys)) = coeff xs ys"
proof -
  define d where "d = map (\<lambda>x. x - mean xs) xs"
  define e where "e = map (\<lambda>y. y - mean ys) ys"
  have dx: "map (\<lambda>x. fsub Fin x (fmean exact_ops (map Fin xs))) (map Fin xs) = map Fin d"
    unfolding d_def by (rule fsub_fmean_Fin)
  have dy: "map (\<lambda>v. fsub Fin v (fmean exact_ops (map Fin ys))) (map Fin ys) = map Fin e"
    unfolding e_def by (rule fsub_fmean_Fin)
  have st: "stretch m (map Fin d) = map Fin d" "stretch m (map Fin e) = map Fin e"
    using assms by (simp_all add: stretch_def d_def e_def)
  have num: "sum_list (map2 (*) d e) = pearson_num xs ys"
    unfolding d_def e_def pearson_num_def by (simp only: map2_map_map)
  have sx: "fsum Fin (map (fsq Fin) (map Fin d)) = Fin (\<Sum>x\<leftarrow>xs. (x - mean xs)\<^sup>2)"
    unfolding d_def by (rule fsum_fsq_Fin)
  have sy: "fsum Fin (map (fsq Fin) (map Fin e)) = Fin (\<Sum>y\<leftarrow>ys. (y - mean ys)\<^sup>2)"
    unfolding e_def by (rule fsum_fsq_Fin)
  have "0 \<le> (\<Sum>x\<leftarrow>xs. (x - mean xs)\<^sup>2)" "0 \<le> (\<Sum>y\<leftarrow>ys. (y - mean ys)\<^sup>2)"
    by (auto intro!: sum_list_nonneg)
  then have nn: "0 \<le> (\<Sum>x\<leftarrow>xs. (x - mean xs)\<^sup>2) * (\<Sum>y\<leftarrow>ys. (y - mean ys)\<^sup>2)"
    by simp
  have den: "fsqrt Fin (fmul Fin (fsum Fin (map (fsq Fin) (map Fin d)))
                                 (fsum Fin (map (fsq Fin) (map Fin e))))
               = Fin (pearson_den xs ys)"
    unfolding sx sy pearson_den_def using nn by (simp only: fmul.simps fsqrt.simps if_True)
  show ?thesis
    unfolding lag_coefficient_def Let_def dx dy st den coeff_def
    by (simp only: map2_fmul_Fin fsum_Fin num)
qed

lemma rounding_exact_ops [simp]: "rounding exact_ops = Fin"
  by (simp add: exact_ops_def)

lemma noise_corr_data_Fin:
  assumes "length B = length A" and "0 \<le> b" and "2 * b \<le> int (length A)"
  shows "noise_corr_data exact_ops (map Fin A) (map Fin B) b =
           Inr (map (\<lambda>l. coeff (lagged A b l) (centre B b)) [- b..b])"
proof -
  define m where "m = nat (int (length A) - 2 * b)"
  have a: "length (map Fin B) = length (map Fin A)" using assms(1) by simp
  have c: "2 * b \<le> int (length (map Fin A))" using assms(3) by simp
  have ylen: "length (centre B b) = m"
    using assms unfolding centre_def m_def
    by (simp add: py_slice_def slice_bound_def Let_def)
  have row: "lag_coefficient Fin m (map Fin (lagged A b l))
               (fmean exact_ops (map Fin (lagged A b l)))
               (map Fin (centre B b)) (fmean exact_ops (map Fin (centre B b)))
             = coeff (lagged A b l) (centre B b)" if "l \<in> set [- b..b]" for l
  proof -
    have "- b \<le> l" "l \<le> b" using that by simp_all
    then have "length (lagged A b l) = m"
      unfolding lagged_def m_def by (rule length_py_slice_lag [OF assms(2,3)])
    then show ?thesis using ylen by (rule lag_coefficient_Fin)
  qed
  have X: "map (\<lambda>l. py_slice (map Fin A) (b + l) (int (length (map Fin A)) - b + l)) [- b..b]
           = map (\<lambda>l. map Fin (lagged A b l)) [- b..b]"
    by (simp add: py_slice_map lagged_def)
  have y: "py_slice (map Fin B) b (int (length (map Fin A)) - b) = map Fin (centre B b)"
    using assms(1) by (simp add: py_slice_map centre_def)
  have "noise_corr_data exact_ops (map Fin A) (map Fin B) b =
        Inr (map2 (\<lambda>row mu. lag_coefficient Fin m row mu (map Fin (centre B b))
                     (fmean exact_ops (map Fin (centre B b))))
               (map (\<lambda>l. map Fin (lagged A b l)) [- b..b])
               (map (fmean exact_ops) (map (\<lambda>l. map Fin (lagged A b l)) [- b..b])))"
    unfolding noise_corr_data_rows [OF a assms(2) c] X y by (simp add: m_def)
  also have "map2 (\<lambda>row mu. lag_coefficient Fin m row mu (map Fin (centre B b))
                     (fmean exact_ops (map Fin (centre B b))))
               (map (\<lambda>l. map Fin (lagged A b l)) [- b..b])
               (map (fmean exact_ops) (map (\<lambda>l. map Fin (lagged A b l)) [- b..b]))
             = map (\<lambda>l. coeff (lagged A b l) (centre B b)) [- b..b]"
    unfolding map_map comp_def map2_map_both by (rule map_cong [OF refl]) (rule row)
  finally show ?thesis .
qed

subsection \<open>The coefficient of two real sequences\<close>

lemma sum_list_all_eq: "\<forall>x\<in>set xs. x = c \<Longrightarrow> sum_list xs = real (length xs) * c"
  by (induction xs) (simp_all add: algebra_simps)

lemma sum_sq_zero_iff: "(\<Sum>x\<leftarrow>xs. (x - c)\<^sup>2) = 0 \<longleftrightarrow> (\<forall>x\<in>set xs. x = (c::real))"
proof -
  have "(\<Sum>x\<leftarrow>xs. (x - c)\<^sup>2) = 0 \<longleftrightarrow> (\<forall>v\<in>set (map (\<lambda>x. (x - c)\<^sup>2) xs). v = 0)"
    by (rule sum_list_nonneg_eq_0_iff) auto
  then show ?thesis by auto
qed

lemma is_constant_mean:
  assumes "xs \<noteq> []"
  shows "is_constant xs \<longleftrightarrow> (\<forall>x\<in>set xs. x = mean xs)"
proof
  assume "is_constant xs"
  then have all: "\<forall>x\<in>set xs. x = hd xs" by (simp add: is_constant_def list_all_iff)
  then have "sum_list xs = real (length xs) * hd xs" by (rule sum_list_all_eq)
  then have "mean xs = hd xs" using assms by (simp add: mean_def)
  then show "\<forall>x\<in>set xs. x = mean xs" using all by simp
next
  assume all: "\<forall>x\<in>set xs. x = mean xs"
  then have "hd xs = mean xs" using assms by simp
  then show "is_constant xs" using all by (simp add: is_constant_def list_all_iff)
qed

lemma pearson_den_zero_iff:
  assumes "xs \<noteq> []" and "ys \<noteq> []"
  shows "pearson_den xs ys = 0 \<longleftrightarrow> is_constant xs \<or> is_constant ys"
  by (simp add: pearson_den_def sum_sq_zero_iff is_constant_mean [OF assms(1)]
        is_constant_mean [OF assms(2)])

lemma pearson_num_zero:
  assumes "(\<forall>x\<in>set xs. x = mean xs) \<or> (\<forall>y\<in>set ys. y = mean ys)"
  shows "pearson_num xs ys = 0"
proof -
  have "\<forall>v\<in>set (map (\<lambda>(x, y). (x - mean xs) * (y - mean ys)) (zip xs ys)). v = 0"
    using assms by (auto dest: set_zip_leftD set_zip_rightD)
  then have "sum_list (map (\<lambda>(x, y). (x - mean xs) * (y - mean ys)) (zip xs ys)) = 0"
    by (metis sum_list_all_eq mult_zero_right)
  then show ?thesis by (simp add: pearson_num_def)
qed

lemma coeff_cases:
  assumes "xs \<noteq> []" and "ys \<noteq> []"
  shows "coeff xs ys =
           (if is_constant xs \<or> is_constant ys then NaN else Fin (pearson xs ys))"
proof (cases "is_constant xs \<or> is_constant ys")
  case True
  then have "pearson_den xs ys = 0" by (simp add: pearson_den_zero_iff [OF assms])
  moreover have "pearson_num xs ys = 0"
    using True is_constant_mean [OF assms(1)] is_constant_mean [OF assms(2)]
    by (intro pearson_num_zero) simp
  ultimately show ?thesis using True by (simp add: coeff_def)
next
  case False
  then have "pearson_den xs ys \<noteq> 0" by (simp add: pearson_den_zero_iff [OF assms])
  then show ?thesis using False by (simp add: coeff_def pearson_def)
qed

lemma coeff_commute: "coeff xs ys = coeff ys xs"
proof -
  have "(\<Sum>(x, y)\<leftarrow>zip xs ys. (x - a) * (y - c)) = (\<Sum>(y, x)\<leftarrow>zip ys xs. (y - c) * (x - a))"
    for a c :: real
    by (induction xs ys rule: list_induct2') (simp_all add: mult.commute)
  then have "pearson_num xs ys = pearson_num ys xs"
    unfolding pearson_num_def by simp
  moreover have "pearson_den xs ys = pearson_den ys xs"
    by (simp add: pearson_den_def mult.commute)
  ultimately show ?thesis by (simp add: coeff_def)
qed

lemma coeff_self:
  assumes "xs \<noteq> []" and "\<not> is_constant xs"
  shows "coeff xs xs = Fin 1"
proof -
  define S where "S = (\<Sum>x\<leftarrow>xs. (x - mean xs)\<^sup>2)"
  have "pearson_num xs xs = S"
    by (simp add: pearson_num_def S_def zip_same_conv_map comp_def power2_eq_square)
  moreover have "0 \<le> S" unfolding S_def by (auto intro!: sum_list_nonneg)
  then have "pearson_den xs xs = S" by (simp add: pearson_den_def S_def flip: power2_eq_square)
  moreover have "S \<noteq> 0"
    using assms by (simp add: S_def sum_sq_zero_iff is_constant_mean)
  ultimately show ?thesis by (simp add: coeff_def)
qed

lemma rounding_float64 [simp]: "rounding float64 = binary64"
  by (simp add: float64_def)

lemma add_reduce_float64 [simp]: "add_reduce float64 = fsum binary64"
  by (simp add: float64_def)

lemmas corr_defs = noise_corr_data_def cross_correlate_def set_row_def py_slice_def slice_bound_def
  fmean_def fsum_def fsq_def fsub_def stretch_def broadcastable_def enumerate_eq_zip upto.simps
  binary64_values

lemmas slice_defs = lagged_def centre_def py_slice_def slice_bound_def is_constant_def

subsection \<open>Slices with zero deviations\<close>










text \<open>
  A slice of zeros is such a slice on every platform whose sum of zeros is zero, and
  without rounding error every constant slice is one.
\<close>

lemma exactly_constant_zeros:
  assumes "rounding fp 0 = Fin 0" and "add_reduce fp (replicate k (Fin 0)) = Fin 0" and "0 < k"
  shows "exactly_constant fp (replicate k 0)"
  using assms by (cases k) (simp_all add: exactly_constant_def is_constant_def fmean_def list_all_iff)

lemma exactly_constant_exact_ops:
  "xs \<noteq> [] \<Longrightarrow> exactly_constant exact_ops xs \<longleftrightarrow> is_constant xs"
proof
  assume "exactly_constant exact_ops xs"
  then show "is_constant xs" by (simp add: exactly_constant_def)
next
  assume ne: "xs \<noteq> []" and c: "is_constant xs"
  then have "\<forall>x\<in>set xs. x = mean xs" by (simp add: is_constant_mean)
  then have "hd xs = mean xs" using ne by simp
  then show "exactly_constant exact_ops xs"
    using c ne by (simp add: exactly_constant_def fmean_Fin)
qed

subsection \<open>Number of coefficients\<close>

text \<open>
  C5: for two signals of the same length, longer than \<open>2 * bin_num\<close>, the stage returns
  \<open>2 * bin_num + 1\<close> coefficients, whatever the length and the values of the signals and
  whatever the rounding.
\<close>

theorem correlogram_length:
  assumes "length fr2 = length fr1" and "0 \<le> bin_num" and "2 * bin_num < int (length fr1)"
  shows "\<exists>r. noise_corr_data fp fr1 fr2 bin_num = Inr r \<and> int (length r) = 2 * bin_num + 1"
proof -
  have le: "2 * bin_num \<le> int (length fr1)" using assms(3) by simp
  show ?thesis
    unfolding noise_corr_data_rows [OF assms(1,2) le] using assms(2) by simp
qed

theorem correlogram_length_witness:
  "length (map Fin [0, 2, 4, 0, 1]) = length (map Fin [0, 0, 2, 0, 1]) \<and> (0::int) \<le> 1 \<and>
   2 * 1 < int (length (map Fin [0, 0, 2, 0, 1])) \<and>
   (\<exists>r. noise_corr_data float64 (map Fin [0, 0, 2, 0, 1]) (map Fin [0, 2, 4, 0, 1]) 1 = Inr r \<and>
        int (length r) = 2 * 1 + 1)"
  using correlogram_length [of "map Fin [0, 2, 4, 0, 1]" "map Fin [0, 0, 2, 0, 1]" 1 float64]
  by simp

subsection \<open>Degenerate lags\<close>







subsection \<open>A signal against itself\<close>

text \<open>
  C3: for a finite signal longer than \<open>2 * bin_num\<close> whose centre slice is not
  constant, the correlation of the signal with itself is 1 at lag 0, the entry at
  position \<open>bin_num\<close>. The claim allows for the rounding error of float64; the value
  without rounding error is 1 itself.
\<close>

theorem self_correlation_is_one:
  assumes "0 \<le> bin_num" and "2 * bin_num < int (length A)"
    and "\<not> is_constant (centre A bin_num)"
  shows "\<exists>r. noise_corr_data exact_ops (map Fin A) (map Fin A) bin_num = Inr r \<and>
           r ! nat bin_num = Fin 1"
proof -
  have le: "2 * bin_num \<le> int (length A)" using assms(2) by simp
  have "length (centre A bin_num) = nat (int (length A) - 2 * bin_num)"
    using assms(1,2) by (rule centre_nonempty)
  then have ne: "centre A bin_num \<noteq> []" using assms(2) by auto
  have "map (\<lambda>l. coeff (lagged A bin_num l) (centre A bin_num)) [- bin_num..bin_num]
          ! nat (bin_num + 0) = coeff (lagged A bin_num 0) (centre A bin_num)"
    using assms(1) by (intro nth_lags(1)) simp_all
  then show ?thesis
    unfolding noise_corr_data_Fin [OF refl assms(1) le]
    using coeff_self [OF ne assms(3)] by (simp add: lagged_zero)
qed

theorem self_correlation_is_one_witness:
  "(0::int) \<le> 1 \<and> 2 * 1 < int (length [0, 1, 3, 0 :: real]) \<and>
   \<not> is_constant (centre [0, 1, 3, 0] 1) \<and>
   (\<exists>r. noise_corr_data exact_ops (map Fin [0, 1, 3, 0]) (map Fin [0, 1, 3, 0]) 1 = Inr r \<and>
        r ! nat 1 = Fin 1)"
proof -
  have c: "\<not> is_constant (centre [0, 1, 3, 0] 1)"
    by (simp add: slice_defs)
  show ?thesis
    using c self_correlation_is_one [of 1 "[0, 1, 3, 0]"] by simp
qed

text \<open>
  An evaluation in float64: for \<open>A = [0, 0, 2, 0]\<close> and \<open>bin_num = 1\<close> every operation is
  exact, and the coefficient of \<open>A\<close> with itself at lag 0, the middle entry, is 1.
\<close>

lemma self_correlation_float64_example:
  "noise_corr_data float64 (map Fin [0, 0, 2, 0]) (map Fin [0, 0, 2, 0]) 1
     = Inr [NaN, Fin 1, Fin (- 1)]"
  by (simp add: corr_defs)

subsection \<open>Swapping the two signals\<close>

text \<open>
  Claim C4 as the specification states it, "\<open>A\<close> against \<open>B\<close> at lag \<open>l\<close> equals \<open>B\<close>
  against \<open>A\<close> at lag \<open>-l\<close>", fails at \<open>l = 1\<close> for \<open>A = [0, 0, 2, 0]\<close>,
  \<open>B = [0, 2, 4, 0]\<close> and \<open>bin_num = 1\<close>: the first is \<open>-1\<close>, the second is \<open>1\<close>.
\<close>

theorem symmetry_counterexample:
  "noise_corr_data float64 (map Fin [0, 0, 2, 0]) (map Fin [0, 2, 4, 0]) 1
     = Inr [NaN, Fin 1, Fin (- 1)] \<and>
   noise_corr_data float64 (map Fin [0, 2, 4, 0]) (map Fin [0, 0, 2, 0]) 1
     = Inr [Fin 1, Fin 1, Fin (- 1)] \<and>
   [NaN, Fin 1, Fin (- 1)] ! nat (1 + 1) \<noteq> [Fin 1, Fin 1, Fin (- 1)] ! nat (1 - 1)"
  by (simp add: corr_defs)

text \<open>
  C4 (amended): for two finite signals of the same length, longer than \<open>2 * bin_num\<close>,
  \<open>A\<close> against \<open>B\<close> and \<open>B\<close> against \<open>A\<close> agree at lag 0. At a lag \<open>l\<close> the first is
  the coefficient of the slice of \<open>A\<close> at offset \<open>bin_num + l\<close> and the centre slice of
  \<open>B\<close>; the second, at \<open>-l\<close>, is the coefficient of the centre slice of \<open>A\<close> and the
  slice of \<open>B\<close> at offset \<open>bin_num - l\<close>, which are other samples unless \<open>l = 0\<close>.
  The values are the ones without rounding error, and two values that are both \<open>NaN\<close>
  count as equal.
\<close>

theorem swapped_roles_agree_at_lag_zero:
  assumes "length B = length A" and "0 \<le> bin_num" and "2 * bin_num < int (length A)"
    and "- bin_num \<le> l" and "l \<le> bin_num"
  shows "\<exists>ra rb. noise_corr_data exact_ops (map Fin A) (map Fin B) bin_num = Inr ra \<and>
           noise_corr_data exact_ops (map Fin B) (map Fin A) bin_num = Inr rb \<and>
           ra ! nat (bin_num + l) = coeff (lagged A bin_num l) (centre B bin_num) \<and>
           rb ! nat (bin_num - l) = coeff (centre A bin_num) (lagged B bin_num (- l)) \<and>
           ra ! nat bin_num = rb ! nat bin_num"
proof -
  have le: "2 * bin_num \<le> int (length A)" using assms(3) by simp
  have le': "2 * bin_num \<le> int (length B)" using assms(1,3) by simp
  have a: "map (\<lambda>l. coeff (lagged A bin_num l) (centre B bin_num)) [- bin_num..bin_num]
             ! nat (bin_num + l) = coeff (lagged A bin_num l) (centre B bin_num)"
    using assms(4,5) by (rule nth_lags(1))
  have b: "map (\<lambda>l. coeff (lagged B bin_num l) (centre A bin_num)) [- bin_num..bin_num]
             ! nat (bin_num + - l) = coeff (lagged B bin_num (- l)) (centre A bin_num)"
    using assms(4,5) by (intro nth_lags(1)) simp_all
  have a0: "map (\<lambda>l. coeff (lagged A bin_num l) (centre B bin_num)) [- bin_num..bin_num]
             ! nat (bin_num + 0) = coeff (lagged A bin_num 0) (centre B bin_num)"
    using assms(2) by (intro nth_lags(1)) simp_all
  have b0: "map (\<lambda>l. coeff (lagged B bin_num l) (centre A bin_num)) [- bin_num..bin_num]
             ! nat (bin_num + 0) = coeff (lagged B bin_num 0) (centre A bin_num)"
    using assms(2) by (intro nth_lags(1)) simp_all
  have sym: "coeff (lagged A bin_num 0) (centre B bin_num)
               = coeff (lagged B bin_num 0) (centre A bin_num)"
    unfolding lagged_zero by (rule coeff_commute)
  show ?thesis
    unfolding noise_corr_data_Fin [OF assms(1,2) le]
      noise_corr_data_Fin [OF assms(1) [symmetric] assms(2) le']
    using a b a0 b0 sym coeff_commute [of "centre A bin_num" "lagged B bin_num (- l)"]
    by simp
qed

theorem swapped_roles_agree_at_lag_zero_witness:
  "length [0, 2, 4, 0 :: real] = length [0, 0, 2, 0 :: real] \<and> (0::int) \<le> 1 \<and>
   2 * 1 < int (length [0, 0, 2, 0 :: real]) \<and> - 1 \<le> (1 :: int) \<and> (1 :: int) \<le> 1 \<and>
   (\<exists>ra rb. noise_corr_data exact_ops (map Fin [0, 0, 2, 0]) (map Fin [0, 2, 4, 0]) 1 = Inr ra \<and>
           noise_corr_data exact_ops (map Fin [0, 2, 4, 0]) (map Fin [0, 0, 2, 0]) 1 = Inr rb \<and>
           ra ! nat (1 + 1) = coeff (lagged [0, 0, 2, 0] 1 1) (centre [0, 2, 4, 0] 1) \<and>
           rb ! nat (1 - 1) = coeff (centre [0, 0, 2, 0] 1) (lagged [0, 2, 4, 0] 1 (- 1)) \<and>
           ra ! nat 1 = rb ! nat 1)"
  using swapped_roles_agree_at_lag_zero [of "[0, 2, 4, 0]" "[0, 0, 2, 0]" 1 1]
  by (simp del: ex_simps)

end
